theory Spec2Isabelle
  imports Complex_Main
begin

section \<open>Strings and the two regular expressions of the query gateway\<close>

text \<open>
  A JavaScript string is modelled as a \<^typ>\<open>string\<close>: a list of code units below 256.
  Both regular expressions of \<^verbatim>\<open>index.ts\<close> carry the flag \<^verbatim>\<open>i\<close> and mention ASCII
  characters only, so a pattern letter matches exactly its upper-case and its lower-case
  ASCII form: no code unit from 128 to 255 canonicalises to an ASCII letter.
\<close>

definition isWordChar :: "char \<Rightarrow> bool" where
  "isWordChar c =
     (let n = (of_char c :: nat)
      in (48 \<le> n \<and> n \<le> 57) \<or> (65 \<le> n \<and> n \<le> 90) \<or> n = 95 \<or> (97 \<le> n \<and> n \<le> 122))"

definition isSpaceChar :: "char \<Rightarrow> bool" where
  "isSpaceChar c = ((of_char c :: nat) \<in> {9, 10, 11, 12, 13, 32, 160})"

definition canon :: "char \<Rightarrow> char" where
  "canon c =
     (let n = (of_char c :: nat) in if 97 \<le> n \<and> n \<le> 122 then char_of (n - 32) else c)"

text \<open>A literal of the pattern, matched without regard to case at the head of the input;
  the result is the input that remains.\<close>

fun matchLit :: "string \<Rightarrow> string \<Rightarrow> string option" where
  "matchLit [] s = Some s"
| "matchLit (p # ps) [] = None"
| "matchLit (p # ps) (c # cs) = (if canon p = canon c then matchLit ps cs else None)"

text \<open>\<open>w\<close> is the literal \<open>lit\<close> in some letter case.\<close>

definition ciEq :: "string \<Rightarrow> string \<Rightarrow> bool" where
  "ciEq lit w = (map canon w = map canon lit)"

subsection \<open>The read-only guard\<close>

text \<open>
  \<^verbatim>\<open>/\b(INSERT|UPDATE|...|ROLLBACK)\b/i\<close>, used through \<^verbatim>\<open>test\<close>: the pattern is tried at
  every index of the string. \<^verbatim>\<open>\b\<close> holds at an index when exactly one of the code units
  before and after it is a word character.
\<close>

definition forbiddenKeywords :: "string list" where
  "forbiddenKeywords =
     [''INSERT'', ''UPDATE'', ''DELETE'', ''CREATE'', ''DROP'', ''ALTER'', ''MERGE'',
      ''TRUNCATE'', ''GRANT'', ''REVOKE'', ''EXECUTE'', ''BEGIN'', ''COMMIT'', ''ROLLBACK'']"

definition wordBefore :: "string \<Rightarrow> nat \<Rightarrow> bool" where
  "wordBefore s i = (0 < i \<and> i \<le> length s \<and> isWordChar (s ! (i - 1)))"

definition wordAfter :: "string \<Rightarrow> nat \<Rightarrow> bool" where
  "wordAfter s i = (i < length s \<and> isWordChar (s ! i))"

definition wordBoundary :: "string \<Rightarrow> nat \<Rightarrow> bool" where
  "wordBoundary s i = (wordBefore s i \<noteq> wordAfter s i)"

definition forbiddenAt :: "string \<Rightarrow> nat \<Rightarrow> bool" where
  "forbiddenAt s i =
     (wordBoundary s i \<and>
      list_ex (\<lambda>kw. matchLit kw (drop i s) \<noteq> None \<and> wordBoundary s (i + length kw))
        forbiddenKeywords)"

definition forbiddenPattern_test :: "string \<Rightarrow> bool" where
  "forbiddenPattern_test s = list_ex (forbiddenAt s) [0 ..< Suc (length s)]"

subsection \<open>The INFORMATION\_SCHEMA rewrite\<close>

text \<open>
  A greedy repetition of a character class followed by the rest of the pattern \<open>k\<close>, with
  the backtracking of the regular expression engine: the longest run is tried first and a
  shorter one when the continuation fails. \<open>acc\<close> is the run consumed so far.
\<close>

fun greedyStar :: "(char \<Rightarrow> bool) \<Rightarrow> (string \<Rightarrow> string \<Rightarrow> 'a option) \<Rightarrow> string \<Rightarrow> string \<Rightarrow> 'a option" where
  "greedyStar P k acc [] = k acc []"
| "greedyStar P k acc (c # cs) =
     (if P c
      then (case greedyStar P k (acc @ [c]) cs of Some r \<Rightarrow> Some r | None \<Rightarrow> k acc (c # cs))
      else k acc (c # cs))"

definition greedyPlus :: "(char \<Rightarrow> bool) \<Rightarrow> (string \<Rightarrow> string \<Rightarrow> 'a option) \<Rightarrow> string \<Rightarrow> 'a option" where
  "greedyPlus P k s = (case s of [] \<Rightarrow> None | c # cs \<Rightarrow> if P c then greedyStar P k [c] cs else None)"

definition fromKeyword :: string where
  "fromKeyword = ''FROM''"

definition informationSchema :: string where
  "informationSchema = ''INFORMATION_SCHEMA''"

definition schemaTables :: string where
  "schemaTables = ''INFORMATION_SCHEMA.TABLES''"

text \<open>The group \<^verbatim>\<open>(?:(\w+)\.)?\<close> followed by the literal: the dataset and what remains.\<close>

definition datasetThenTables :: "string \<Rightarrow> string \<Rightarrow> (string option \<times> string) option" where
  "datasetThenTables ds r =
     (case r of
        [] \<Rightarrow> None
      | c # r' \<Rightarrow> if c = CHR ''.'' then map_option (Pair (Some ds)) (matchLit schemaTables r') else None)"

definition afterFrom :: "string \<Rightarrow> (string option \<times> string) option" where
  "afterFrom r =
     (case greedyPlus isWordChar datasetThenTables r of
        Some m \<Rightarrow> Some m
      | None \<Rightarrow> map_option (Pair None) (matchLit schemaTables r))"

text \<open>
  \<^verbatim>\<open>/FROM\s+(?:(\w+)\.)?INFORMATION_SCHEMA\.TABLES/gi\<close> tried at the head of the input: the
  captured dataset (\<open>None\<close> when the optional group did not take part) and the input after
  the match.
\<close>

definition unqualifiedPattern :: "string \<Rightarrow> (string option \<times> string) option" where
  "unqualifiedPattern s =
     (case matchLit fromKeyword s of
        None \<Rightarrow> None
      | Some r \<Rightarrow> greedyPlus isSpaceChar (\<lambda>ws. afterFrom) r)"

datatype thrown = JsError string | NonError

definition datasetMessage :: string where
  "datasetMessage =
     ''Dataset must be specified when querying INFORMATION_SCHEMA (e.g. dataset.INFORMATION_SCHEMA.TABLES)''"

definition replacement :: "string \<Rightarrow> string \<Rightarrow> string" where
  "replacement projectId dataset =
     ''FROM `'' @ projectId @ ''.'' @ dataset @ ''.INFORMATION_SCHEMA.TABLES`''"

lemma matchLit_length: "matchLit p s = Some r \<Longrightarrow> length s = length p + length r"
  by (induction p s rule: matchLit.induct) (auto split: if_splits)

lemma greedyStar_shorter:
  assumes "greedyStar P k acc s = Some (d, r)"
    and "\<And>a t. k a t = Some (d, r) \<Longrightarrow> length r \<le> length t"
  shows "length r \<le> length s"
  using assms
proof (induction s arbitrary: acc)
  case Nil
  then show ?case by fastforce
next
  case (Cons c cs)
  show ?case
  proof (cases "P c \<and> greedyStar P k (acc @ [c]) cs \<noteq> None")
    case True
    then have g: "greedyStar P k (acc @ [c]) cs = Some (d, r)"
      using Cons.prems(1) by auto
    have "length r \<le> length cs"
      by (rule Cons.IH [OF g]) (rule Cons.prems(2))
    then show ?thesis by simp
  next
    case False
    then have "k acc (c # cs) = Some (d, r)"
      using Cons.prems(1) by (auto split: if_splits option.splits)
    then show ?thesis by (rule Cons.prems(2))
  qed
qed

lemma greedyPlus_shorter:
  assumes "greedyPlus P k s = Some (d, r)"
    and "\<And>a t. k a t = Some (d, r) \<Longrightarrow> length r \<le> length t"
  shows "length r < length s"
proof -
  obtain c cs where s: "s = c # cs" and g: "greedyStar P k [c] cs = Some (d, r)"
    using assms(1) unfolding greedyPlus_def by (cases s) (simp_all split: if_splits)
  have "length r \<le> length cs"
    using g assms(2) by (rule greedyStar_shorter)
  then show ?thesis using s by simp
qed

lemma datasetThenTables_shorter:
  assumes "datasetThenTables ds t = Some (d, r)"
  shows "length r \<le> length t"
proof -
  obtain c r' where t: "t = c # r'" and m: "matchLit schemaTables r' = Some r"
    using assms by (auto simp: datasetThenTables_def split: list.splits if_splits)
  show ?thesis using matchLit_length [OF m] t by simp
qed

lemma afterFrom_shorter:
  assumes "afterFrom t = Some (d, r)"
  shows "length r \<le> length t"
proof (cases "greedyPlus isWordChar datasetThenTables t")
  case None
  then have "matchLit schemaTables t = Some r"
    using assms by (auto simp: afterFrom_def)
  then show ?thesis using matchLit_length by fastforce
next
  case (Some m)
  then have g: "greedyPlus isWordChar datasetThenTables t = Some (d, r)"
    using assms by (simp add: afterFrom_def)
  have "length r < length t"
    using g datasetThenTables_shorter by (rule greedyPlus_shorter)
  then show ?thesis by simp
qed

lemma unqualifiedPattern_shorter:
  assumes "unqualifiedPattern s = Some (d, r)"
  shows "length r < length s"
proof -
  obtain r1 where r1: "matchLit fromKeyword s = Some r1"
    and g: "greedyPlus isSpaceChar (\<lambda>ws. afterFrom) r1 = Some (d, r)"
    using assms by (auto simp: unqualifiedPattern_def split: option.splits)
  have "length r < length r1"
    using g afterFrom_shorter by (rule greedyPlus_shorter)
  moreover have "length r1 \<le> length s"
    using matchLit_length [OF r1] by simp
  ultimately show ?thesis by simp
qed

text \<open>
  \<^verbatim>\<open>sql.replace(unqualifiedPattern, callback)\<close>: the matches are found from left to right,
  each search starting where the previous match ended; the callback returns the qualified
  path when the dataset was captured and throws otherwise.
\<close>

function qualifyTablePath :: "string \<Rightarrow> string \<Rightarrow> thrown + string" where
  "qualifyTablePath [] projectId = Inr []"
| "qualifyTablePath (c # cs) projectId =
     (case unqualifiedPattern (c # cs) of
        None \<Rightarrow>
          (case qualifyTablePath cs projectId of Inl e \<Rightarrow> Inl e | Inr out \<Rightarrow> Inr (c # out))
      | Some (None, rest) \<Rightarrow> Inl (JsError datasetMessage)
      | Some (Some dataset, rest) \<Rightarrow>
          (case qualifyTablePath rest projectId of
             Inl e \<Rightarrow> Inl e
           | Inr out \<Rightarrow> Inr (replacement projectId dataset @ out)))"
  by pat_completeness auto

termination
  by (relation "measure (\<lambda>(s, p). length s)") (auto dest: unqualifiedPattern_shorter)

section \<open>The query tool\<close>

record server_config =
  projectId :: string
  location :: "string option"

text \<open>
  \<^verbatim>\<open>validateConfig\<close> accepts a project id that matches \<^verbatim>\<open>/^[a-z0-9-]+$/\<close>; with any
  other the process exits before it serves a call.
\<close>

definition projectIdChar :: "char \<Rightarrow> bool" where
  "projectIdChar c =
     (let n = (of_char c :: nat) in (97 \<le> n \<and> n \<le> 122) \<or> (48 \<le> n \<and> n \<le> 57) \<or> n = 45)"

definition validProjectId :: "string \<Rightarrow> bool" where
  "validProjectId p = (p \<noteq> [] \<and> list_all projectIdChar p)"

text \<open>The argument of \<^verbatim>\<open>bigquery.query\<close>.\<close>

record query_request =
  req_query :: string
  req_location :: "string option"
  req_maximumBytesBilled :: string

text \<open>
  What a handler does with a call: it returns a tool result (the flag \<^verbatim>\<open>isError\<close> and the
  content) or an exception leaves the handler. The content is a message, or the text
  rendered from a value that is kept as it is: the serialisation of the rows of a query.
\<close>

datatype 'r content = Rendered 'r | Message string

datatype 'a outcome = Returned bool 'a | Raised thrown

text \<open>
  \<^verbatim>\<open>sql.toUpperCase().includes(lit)\<close> for an upper-case ASCII \<open>lit\<close>: no code unit
  from 128 to 255 has an upper-case form with a character of such a literal in a place
  where the literal could occur.
\<close>

definition upperIncludes :: "string \<Rightarrow> string \<Rightarrow> bool" where
  "upperIncludes lit s = list_ex (\<lambda>i. matchLit lit (drop i s) \<noteq> None) [0 ..< Suc (length s)]"

text \<open>The \<^verbatim>\<open>catch\<close> block of the query branch.\<close>

definition queryCatch :: "thrown \<Rightarrow> 'r content outcome" where
  "queryCatch e =
     (case e of
        JsError m \<Rightarrow> Returned True (Message (''Error executing query: '' @ m))
      | NonError \<Rightarrow> Raised NonError)"

text \<open>
  The branch \<^verbatim>\<open>request.params.name === "query"\<close>. \<open>bigquery\<close> stands for the warehouse
  client's \<^verbatim>\<open>query\<close> call, which gives rows or throws. The second component of the result
  lists the requests sent to the warehouse during the call.
\<close>

definition queryTool ::
  "server_config \<Rightarrow> (query_request \<Rightarrow> thrown + 'r) \<Rightarrow> string \<Rightarrow> string option
     \<Rightarrow> 'r content outcome \<times> query_request list" where
  "queryTool config bigquery sql maxArg =
     (let maximumBytesBilled =
            (case maxArg of None \<Rightarrow> ''1000000000'' | Some m \<Rightarrow> if m = [] then ''1000000000'' else m)
      in if forbiddenPattern_test sql
         then (Raised (JsError ''Only READ operations are allowed''), [])
         else
           (case (if upperIncludes informationSchema sql
                  then qualifyTablePath sql (projectId config) else Inr sql) of
              Inl e \<Rightarrow> (queryCatch e, [])
            | Inr sql' \<Rightarrow>
                (let req = \<lparr>req_query = sql', req_location = location config,
                                req_maximumBytesBilled = maximumBytesBilled\<rparr>
                 in case bigquery req of
                      Inl e \<Rightarrow> (queryCatch e, [req])
                    | Inr rows \<Rightarrow> (Returned False (Rendered rows), [req]))))"

section \<open>Tabular results\<close>

text \<open>
  The value that \<^verbatim>\<open>JSON.parse\<close> gives for the \<^verbatim>\<open>data\<close> argument, as far as the data model
  of the tools goes: an array whose elements are records of scalar cells; an element may
  also be a scalar itself. A number is an exact rational or \<^verbatim>\<open>NaN\<close>: the rounding of
  IEEE doubles and the infinities are not modelled. A record lists its own properties in
  the order in which \<^verbatim>\<open>Object.keys\<close> enumerates them; properties inherited from
  \<^verbatim>\<open>Object.prototype\<close> are not modelled.
\<close>

datatype cell = CNull | CBool bool | CNum rat | CNaN | CStr string

datatype elem = Row "(string \<times> cell) list" | Prim cell

datatype json = JArray "elem list" | JObject "(string \<times> cell) list" | JScalar cell

text \<open>
  Three functions of the JavaScript runtime are parameters of the model:
  \<^verbatim>\<open>JSON.parse\<close> (\<open>Inl\<close> carries the message of the \<^verbatim>\<open>SyntaxError\<close>), the conversion of
  a string to a number (\<open>None\<close> is \<^verbatim>\<open>NaN\<close>) and the conversion of a number to a string.
\<close>

record runtime =
  parseJSON :: "string \<Rightarrow> string + json"
  stringToNumber :: "string \<Rightarrow> rat option"
  numberToString :: "rat \<Rightarrow> string"

subsection \<open>Conversions and operators\<close>

definition toNumber :: "runtime \<Rightarrow> cell \<Rightarrow> rat option" where
  "toNumber rt c =
     (case c of
        CNull \<Rightarrow> Some 0
      | CBool b \<Rightarrow> Some (if b then 1 else 0)
      | CNum x \<Rightarrow> Some x
      | CNaN \<Rightarrow> None
      | CStr s \<Rightarrow> stringToNumber rt s)"

text \<open>\<^verbatim>\<open>Number(v)\<close> for a property that may be absent: \<^verbatim>\<open>undefined\<close> gives \<^verbatim>\<open>NaN\<close>.\<close>

definition toNumberProp :: "runtime \<Rightarrow> cell option \<Rightarrow> rat option" where
  "toNumberProp rt v = (case v of None \<Rightarrow> None | Some c \<Rightarrow> toNumber rt c)"

definition numCell :: "rat option \<Rightarrow> cell" where
  "numCell n = (case n of None \<Rightarrow> CNaN | Some x \<Rightarrow> CNum x)"

definition toStr :: "runtime \<Rightarrow> cell \<Rightarrow> string" where
  "toStr rt c =
     (case c of
        CNull \<Rightarrow> ''null''
      | CBool b \<Rightarrow> (if b then ''true'' else ''false'')
      | CNum x \<Rightarrow> numberToString rt x
      | CNaN \<Rightarrow> ''NaN''
      | CStr s \<Rightarrow> s)"

definition toStrProp :: "runtime \<Rightarrow> cell option \<Rightarrow> string" where
  "toStrProp rt v = (case v of None \<Rightarrow> ''undefined'' | Some c \<Rightarrow> toStr rt c)"

definition isString :: "cell \<Rightarrow> bool" where
  "isString c = (case c of CStr s \<Rightarrow> True | _ \<Rightarrow> False)"

definition isNumberCell :: "cell \<Rightarrow> bool" where
  "isNumberCell c = (case c of CNum x \<Rightarrow> True | CNaN \<Rightarrow> True | _ \<Rightarrow> False)"

text \<open>The operator \<^verbatim>\<open>+\<close>: concatenation when an operand is a string, else addition.\<close>

definition jsAdd :: "runtime \<Rightarrow> cell \<Rightarrow> cell \<Rightarrow> cell" where
  "jsAdd rt a b =
     (if isString a \<or> isString b then CStr (toStr rt a @ toStr rt b)
      else (case (toNumber rt a, toNumber rt b) of
              (Some x, Some y) \<Rightarrow> CNum (x + y)
            | _ \<Rightarrow> CNaN))"

subsection \<open>Property names and property access\<close>

definition isDigit :: "char \<Rightarrow> bool" where
  "isDigit c = (let n = (of_char c :: nat) in 48 \<le> n \<and> n \<le> 57)"

definition decValue :: "string \<Rightarrow> int" where
  "decValue s = foldl (\<lambda>a c. 10 * a + (of_char c - 48)) 0 s"

text \<open>An array index is a canonical decimal numeral below \<open>2\<^sup>3\<^sup>2 - 1\<close>.\<close>

definition arrayIndex :: "string \<Rightarrow> int option" where
  "arrayIndex s =
     (if s \<noteq> [] \<and> list_all isDigit s \<and> (s = ''0'' \<or> hd s \<noteq> CHR ''0'')
         \<and> decValue s < 4294967295
      then Some (decValue s) else None)"

function natToDec :: "nat \<Rightarrow> string" where
  "natToDec n =
     (if n < 10 then [char_of (48 + n)] else natToDec (n div 10) @ [char_of (48 + n mod 10)])"
  by pat_completeness auto

termination
  by (relation "measure id") auto

text \<open>
  \<^verbatim>\<open>Object.entries(e)\<close> for an element of the array. It throws for \<^verbatim>\<open>null\<close>; a number or a
  boolean has no own property; a string has its characters.
\<close>

definition nullToObject :: string where
  "nullToObject = ''Cannot convert undefined or null to object''"

definition ownProperties :: "elem \<Rightarrow> thrown + (string \<times> cell) list" where
  "ownProperties e =
     (case e of
        Row r \<Rightarrow> Inr r
      | Prim CNull \<Rightarrow> Inl (JsError nullToObject)
      | Prim (CStr s) \<Rightarrow> Inr (map (\<lambda>i. (natToDec i, CStr [s ! i])) [0 ..< length s])
      | Prim _ \<Rightarrow> Inr [])"

text \<open>\<^verbatim>\<open>row[col]\<close>: \<open>None\<close> is \<^verbatim>\<open>undefined\<close>; reading a property of \<^verbatim>\<open>null\<close> throws.\<close>

definition readOfNull :: "string \<Rightarrow> string" where
  "readOfNull col = ''Cannot read properties of null (reading '' @ [CHR 0x27] @ col @ [CHR 0x27] @ '')''"

definition getProp :: "elem \<Rightarrow> string \<Rightarrow> thrown + cell option" where
  "getProp e col =
     (case e of
        Row r \<Rightarrow> Inr (map_of r col)
      | Prim CNull \<Rightarrow> Inl (JsError (readOfNull col))
      | Prim (CStr s) \<Rightarrow>
          Inr (case arrayIndex col of
                 Some i \<Rightarrow> if i < int (length s) then Some (CStr [s ! nat i]) else None
               | None \<Rightarrow> if col = ''length'' then Some (CNum (of_nat (length s))) else None)
      | Prim _ \<Rightarrow> Inr None)"

text \<open>A loop body that may throw, run over a list: the first exception ends the loop.\<close>

fun mapE :: "('a \<Rightarrow> thrown + 'b) \<Rightarrow> 'a list \<Rightarrow> thrown + 'b list" where
  "mapE f [] = Inr []"
| "mapE f (x # xs) =
     (case f x of
        Inl e \<Rightarrow> Inl e
      | Inr y \<Rightarrow> (case mapE f xs of Inl e \<Rightarrow> Inl e | Inr ys \<Rightarrow> Inr (y # ys)))"

text \<open>
  A \<^verbatim>\<open>Record<string, T>\<close> built by assignments. \<^verbatim>\<open>Object.entries\<close> lists the array
  indices first, in ascending order, and then the other names in the order of their first
  assignment.
\<close>

fun insertIndex :: "int \<Rightarrow> string \<Rightarrow> 'v \<Rightarrow> (string \<times> 'v) list \<Rightarrow> (string \<times> 'v) list" where
  "insertIndex i k v [] = [(k, v)]"
| "insertIndex i k v ((k', v') # kvs) =
     (case arrayIndex k' of
        Some j \<Rightarrow> if j < i then (k', v') # insertIndex i k v kvs else (k, v) # (k', v') # kvs
      | None \<Rightarrow> (k, v) # (k', v') # kvs)"

definition assign :: "(string \<times> 'v) list \<Rightarrow> string \<Rightarrow> 'v \<Rightarrow> (string \<times> 'v) list" where
  "assign obj k v =
     (if k \<in> fst ` set obj then map (\<lambda>(k', v'). if k' = k then (k', v) else (k', v')) obj
      else (case arrayIndex k of Some i \<Rightarrow> insertIndex i k v obj | None \<Rightarrow> obj @ [(k, v)]))"

section \<open>The tool analyze\_results\<close>

datatype coltype = TNumeric | TString | TBoolean | TUnknown | TObject

text \<open>The type tag of a column, from the value of the first row.\<close>

definition sampleType :: "cell \<Rightarrow> coltype" where
  "sampleType c =
     (case c of
        CNum x \<Rightarrow> TNumeric
      | CNaN \<Rightarrow> TNumeric
      | CStr s \<Rightarrow> TString
      | CBool b \<Rightarrow> TBoolean
      | CNull \<Rightarrow> TUnknown)"

definition columnsOfType :: "(string \<times> coltype) list \<Rightarrow> coltype \<Rightarrow> string list \<Rightarrow> string list" where
  "columnsOfType columnTypes ty columns = filter (\<lambda>col. map_of columnTypes col = Some ty) columns"

subsection \<open>Statistics of the numeric columns\<close>

record column_stats =
  stat_min :: rat
  stat_max :: rat
  stat_avg :: "rat option"
  stat_median :: cell
  stat_sum :: cell

text \<open>The filter \<^verbatim>\<open>val !== null && !isNaN(val)\<close>.\<close>

definition keepValue :: "runtime \<Rightarrow> cell option \<Rightarrow> bool" where
  "keepValue rt val = (val \<noteq> Some CNull \<and> toNumberProp rt val \<noteq> None)"

definition columnValues :: "runtime \<Rightarrow> elem list \<Rightarrow> string \<Rightarrow> thrown + cell list" where
  "columnValues rt data col =
     (case mapE (\<lambda>row. getProp row col) data of
        Inl e \<Rightarrow> Inl e
      | Inr vals \<Rightarrow> Inr (map the (filter (keepValue rt) vals)))"

text \<open>The number that a kept value stands for in arithmetic; a kept value is never \<^verbatim>\<open>NaN\<close>.\<close>

definition num :: "runtime \<Rightarrow> cell \<Rightarrow> rat" where
  "num rt c = (case toNumber rt c of Some x \<Rightarrow> x | None \<Rightarrow> 0)"

definition divNum :: "rat option \<Rightarrow> rat \<Rightarrow> rat option" where
  "divNum a d = (case a of None \<Rightarrow> None | Some x \<Rightarrow> Some (x / d))"

text \<open>The body of \<^verbatim>\<open>if (values.length > 0)\<close>, for the values \<open>v # vs\<close>.\<close>

definition computeStats :: "runtime \<Rightarrow> cell \<Rightarrow> cell list \<Rightarrow> column_stats" where
  "computeStats rt v vs =
     (let values = v # vs;
          sum = foldl (jsAdd rt) (CNum 0) values;
          avg = divNum (toNumber rt sum) (of_nat (length values));
          mn = foldl min (num rt v) (map (num rt) vs);
          mx = foldl max (num rt v) (map (num rt) vs);
          sorted = sort_key (num rt) values;
          mid = length sorted div 2;
          median =
            (if length sorted mod 2 = 0
             then numCell (divNum (toNumber rt (jsAdd rt (sorted ! (mid - 1)) (sorted ! mid))) 2)
             else sorted ! mid)
      in \<lparr>stat_min = mn, stat_max = mx, stat_avg = avg, stat_median = median, stat_sum = sum\<rparr>)"

fun statisticsLoop ::
  "runtime \<Rightarrow> elem list \<Rightarrow> string list \<Rightarrow> (string \<times> column_stats) list
     \<Rightarrow> thrown + (string \<times> column_stats) list" where
  "statisticsLoop rt data [] stats = Inr stats"
| "statisticsLoop rt data (col # cols) stats =
     (case columnValues rt data col of
        Inl e \<Rightarrow> Inl e
      | Inr [] \<Rightarrow> statisticsLoop rt data cols stats
      | Inr (v # vs) \<Rightarrow> statisticsLoop rt data cols (assign stats col (computeStats rt v vs)))"

definition statistics ::
  "runtime \<Rightarrow> elem list \<Rightarrow> string list \<Rightarrow> thrown + (string \<times> column_stats) list" where
  "statistics rt data numericColumns = statisticsLoop rt data numericColumns []"

subsection \<open>Frequencies of the string columns\<close>

record categorical =
  distinctCount :: nat
  topValues :: "(string \<times> nat \<times> rat) list"

text \<open>
  \<^verbatim>\<open>x.toFixed(2)\<close> for \<open>x \<ge> 0\<close>, as the number that the digits denote: the nearest
  multiple of one hundredth, the larger one in a tie.
\<close>

definition toFixed2 :: "rat \<Rightarrow> rat" where
  "toFixed2 x = of_int \<lfloor>x * 100 + 1 / 2\<rfloor> / 100"

definition countValue :: "runtime \<Rightarrow> (string \<times> nat) list \<Rightarrow> cell option \<Rightarrow> (string \<times> nat) list" where
  "countValue rt valueMap val =
     (case val of
        None \<Rightarrow> valueMap
      | Some CNull \<Rightarrow> valueMap
      | Some c \<Rightarrow>
          (let k = toStr rt c
           in assign valueMap k ((case map_of valueMap k of None \<Rightarrow> 0 | Some n \<Rightarrow> n) + 1)))"

definition categoricalOf :: "runtime \<Rightarrow> nat \<Rightarrow> cell option list \<Rightarrow> categorical" where
  "categoricalOf rt rowCount vals =
     (let valueMap = foldl (countValue rt) [] vals
      in \<lparr>distinctCount = length valueMap,
          topValues =
            map (\<lambda>(value, count).
                   (value, count, toFixed2 (of_nat count / of_nat rowCount * 100)))
              (take 5 (sort_key (\<lambda>(value, count). - int count) valueMap))\<rparr>)"

fun categoricalLoop ::
  "runtime \<Rightarrow> elem list \<Rightarrow> string list \<Rightarrow> (string \<times> categorical) list
     \<Rightarrow> thrown + (string \<times> categorical) list" where
  "categoricalLoop rt data [] acc = Inr acc"
| "categoricalLoop rt data (col # cols) acc =
     (case mapE (\<lambda>row. getProp row col) data of
        Inl e \<Rightarrow> Inl e
      | Inr vals \<Rightarrow>
          categoricalLoop rt data cols (assign acc col (categoricalOf rt (length data) vals)))"

definition categoricalAnalysis ::
  "runtime \<Rightarrow> elem list \<Rightarrow> (string \<times> coltype) list \<Rightarrow> string list
     \<Rightarrow> thrown + (string \<times> categorical) list" where
  "categoricalAnalysis rt data columnTypes columns =
     categoricalLoop rt data (take 5 (columnsOfType columnTypes TString columns)) []"

subsection \<open>The focused section\<close>

text \<open>
  A line of the focused section: the range of a column with its minimum and maximum, the
  number of its outliers, or the counts of its five bins.
\<close>

datatype insight = Trend string rat rat rat | Outliers string nat | Distribution string "nat list"

definition asciiLower :: "char \<Rightarrow> char" where
  "asciiLower c =
     (let n = (of_char c :: nat) in if 65 \<le> n \<and> n \<le> 90 then char_of (n + 32) else c)"

text \<open>\<^verbatim>\<open>focus.toLowerCase() === lit\<close> for a lower-case ASCII \<open>lit\<close>.\<close>

definition focusIs :: "string \<Rightarrow> string \<Rightarrow> bool" where
  "focusIs lit focus = (map asciiLower focus = lit)"

text \<open>
  The values further than two standard deviations from the mean: \<open>|x - avg| > 2 * stdDev\<close>
  is decided on the squares, so that no square root is taken. With the mean \<^verbatim>\<open>NaN\<close> no
  comparison holds.
\<close>

definition outlierCount :: "runtime \<Rightarrow> rat option \<Rightarrow> cell list \<Rightarrow> nat" where
  "outlierCount rt avg values =
     (case avg of
        None \<Rightarrow> 0
      | Some a \<Rightarrow>
          (let variance = foldl (\<lambda>sum val. sum + (num rt val - a)\<^sup>2) 0 values / of_nat (length values)
           in length (filter (\<lambda>val. (num rt val - a)\<^sup>2 > 4 * variance) values)))"

text \<open>
  The histogram. With a range of zero the bin index is \<^verbatim>\<open>NaN\<close> and no bin is counted up.
\<close>

definition binIndex :: "rat \<Rightarrow> rat \<Rightarrow> rat \<Rightarrow> nat option" where
  "binIndex mn binSize x =
     (if binSize = 0 then None else Some (nat (min \<lfloor>(x - mn) / binSize\<rfloor> 4)))"

definition countBin :: "rat \<Rightarrow> rat \<Rightarrow> nat list \<Rightarrow> rat \<Rightarrow> nat list" where
  "countBin mn binSize bins x =
     (case binIndex mn binSize x of None \<Rightarrow> bins | Some i \<Rightarrow> bins[i := bins ! i + 1])"

definition histogram :: "runtime \<Rightarrow> rat \<Rightarrow> rat \<Rightarrow> cell list \<Rightarrow> nat list" where
  "histogram rt mn mx values =
     foldl (countBin mn ((mx - mn) / 5)) [0, 0, 0, 0, 0] (map (num rt) values)"

text \<open>The line of one numeric column; a column without statistics has none.\<close>

definition insightLine ::
  "runtime \<Rightarrow> elem list \<Rightarrow> (string \<times> column_stats) list \<Rightarrow> (string \<Rightarrow> column_stats \<Rightarrow> cell list \<Rightarrow> insight)
     \<Rightarrow> string \<Rightarrow> thrown + insight list" where
  "insightLine rt data stats line col =
     (case map_of stats col of
        None \<Rightarrow> Inr []
      | Some st \<Rightarrow>
          (case columnValues rt data col of
             Inl e \<Rightarrow> Inl e
           | Inr values \<Rightarrow> Inr [line col st values]))"

definition insightLines ::
  "runtime \<Rightarrow> elem list \<Rightarrow> (string \<times> column_stats) list \<Rightarrow> (string \<Rightarrow> column_stats \<Rightarrow> cell list \<Rightarrow> insight)
     \<Rightarrow> string list \<Rightarrow> thrown + insight list" where
  "insightLines rt data stats line numericColumns =
     (case mapE (insightLine rt data stats line) numericColumns of
        Inl e \<Rightarrow> Inl e
      | Inr ls \<Rightarrow> Inr (concat ls))"

definition trendLine :: "string \<Rightarrow> column_stats \<Rightarrow> cell list \<Rightarrow> insight" where
  "trendLine col st values = Trend col (stat_max st - stat_min st) (stat_min st) (stat_max st)"

definition outlierLine :: "runtime \<Rightarrow> string \<Rightarrow> column_stats \<Rightarrow> cell list \<Rightarrow> insight" where
  "outlierLine rt col st values = Outliers col (outlierCount rt (stat_avg st) values)"

definition distributionLine :: "runtime \<Rightarrow> string \<Rightarrow> column_stats \<Rightarrow> cell list \<Rightarrow> insight" where
  "distributionLine rt col st values =
     Distribution col (histogram rt (stat_min st) (stat_max st) values)"

text \<open>
  \<open>None\<close> is the empty string \<^verbatim>\<open>focusedInsights\<close>: no focused section. Otherwise the
  section has its heading and the lines.
\<close>

definition focusedInsights ::
  "runtime \<Rightarrow> elem list \<Rightarrow> string list \<Rightarrow> (string \<times> column_stats) list \<Rightarrow> string option
     \<Rightarrow> thrown + insight list option" where
  "focusedInsights rt data numericColumns stats focus =
     (case focus of
        None \<Rightarrow> Inr None
      | Some f \<Rightarrow>
          if f = [] \<or> numericColumns = [] then Inr None
          else if focusIs ''trends'' f
            then map_sum id Some (insightLines rt data stats trendLine numericColumns)
          else if focusIs ''outliers'' f
            then map_sum id Some (insightLines rt data stats (outlierLine rt) numericColumns)
          else if focusIs ''distribution'' f
            then map_sum id Some (insightLines rt data stats (distributionLine rt) numericColumns)
          else Inr None)"

subsection \<open>The handler\<close>

record analysis =
  an_rowCount :: nat
  an_columns :: "string list"
  an_columnTypes :: "(string \<times> coltype) list"
  an_numericColumns :: "string list"
  an_statistics :: "(string \<times> column_stats) list"
  an_categoricalAnalysis :: "(string \<times> categorical) list"
  an_focusedInsights :: "insight list option"

text \<open>
  The report is a template over the analysis; its layout is not modelled, its exceptions
  are. \<^verbatim>\<open>toFixed\<close> exists on numbers only, and the key insights read the statistics of
  the first numeric column.
\<close>

definition statsRenderError :: "column_stats \<Rightarrow> string option" where
  "statsRenderError st =
     (if \<not> isNumberCell (stat_median st) then Some ''stats.median.toFixed is not a function''
      else if \<not> isNumberCell (stat_sum st) then Some ''stats.sum.toFixed is not a function''
      else None)"

definition readMaxOfUndefined :: string where
  "readMaxOfUndefined =
     ''Cannot read properties of undefined (reading '' @ [CHR 0x27] @ ''max'' @ [CHR 0x27] @ '')''"

definition renderError :: "analysis \<Rightarrow> string option" where
  "renderError a =
     (if an_numericColumns a = [] then None
      else (case List.map_filter (\<lambda>(col, st). statsRenderError st) (an_statistics a) of
              m # ms \<Rightarrow> Some m
            | [] \<Rightarrow>
               (case map_of (an_statistics a) (hd (an_numericColumns a)) of
                  None \<Rightarrow> Some readMaxOfUndefined
                | Some st \<Rightarrow> None)))"

definition analyse :: "runtime \<Rightarrow> elem \<Rightarrow> elem list \<Rightarrow> string option \<Rightarrow> thrown + analysis" where
  "analyse rt first rest focus =
     (let data = first # rest in
      case ownProperties first of
        Inl e \<Rightarrow> Inl e
      | Inr props \<Rightarrow>
         (let columns = map fst props;
              columnTypes = map (\<lambda>(col, sampleValue). (col, sampleType sampleValue)) props;
              numericColumns = columnsOfType columnTypes TNumeric columns
          in case statistics rt data numericColumns of
               Inl e \<Rightarrow> Inl e
             | Inr stats \<Rightarrow>
                (case categoricalAnalysis rt data columnTypes columns of
                   Inl e \<Rightarrow> Inl e
                 | Inr cats \<Rightarrow>
                    (case focusedInsights rt data numericColumns stats focus of
                       Inl e \<Rightarrow> Inl e
                     | Inr focused \<Rightarrow>
                        (let a = \<lparr>an_rowCount = length data, an_columns = columns,
                                    an_columnTypes = columnTypes, an_numericColumns = numericColumns,
                                    an_statistics = stats, an_categoricalAnalysis = cats,
                                    an_focusedInsights = focused\<rparr>
                         in case renderError a of
                              Some m \<Rightarrow> Inl (JsError m)
                            | None \<Rightarrow> Inr a)))))"

definition wrongFormat :: string where
  "wrongFormat = ''The provided data is empty or not in the expected format (array of objects).''"

definition analyzeCatch :: "thrown \<Rightarrow> 'a content outcome" where
  "analyzeCatch e =
     (case e of
        JsError m \<Rightarrow> Returned True (Message (''Error analyzing data: '' @ m))
      | NonError \<Rightarrow> Raised NonError)"

text \<open>The branch \<^verbatim>\<open>request.params.name === "analyze_results"\<close>.\<close>

definition analyze_results :: "runtime \<Rightarrow> string \<Rightarrow> string option \<Rightarrow> analysis content outcome" where
  "analyze_results rt dataString focus =
     (case parseJSON rt dataString of
        Inl m \<Rightarrow> analyzeCatch (JsError m)
      | Inr data \<Rightarrow>
         (case data of
            JArray (first # rest) \<Rightarrow>
              (case analyse rt first rest focus of
                 Inl e \<Rightarrow> analyzeCatch e
               | Inr a \<Rightarrow> Returned False (Rendered a))
          | _ \<Rightarrow> Returned True (Message wrongFormat)))"

section \<open>The tool generate\_visualization\<close>

text \<open>The type tag of a column in this tool: \<^verbatim>\<open>typeof null\<close> is \<^verbatim>\<open>object\<close>.\<close>

definition sampleTypeVis :: "cell \<Rightarrow> coltype" where
  "sampleTypeVis c =
     (case c of
        CNum x \<Rightarrow> TNumeric
      | CNaN \<Rightarrow> TNumeric
      | CStr s \<Rightarrow> TString
      | CBool b \<Rightarrow> TBoolean
      | CNull \<Rightarrow> TObject)"

datatype chart_kind = Bar | Line | Pie | Scatter

text \<open>\<^verbatim>\<open>(type || 'bar').toLowerCase()\<close> and the \<^verbatim>\<open>switch\<close> over it.\<close>

definition chartTypeOf :: "string option \<Rightarrow> chart_kind" where
  "chartTypeOf arg =
     (let visType = map asciiLower (case arg of None \<Rightarrow> ''bar'' | Some t \<Rightarrow> if t = [] then ''bar'' else t)
      in if visType = ''bar'' then Bar
         else if visType = ''line'' then Line
         else if visType = ''pie'' then Pie
         else if visType = ''scatter'' then Scatter
         else Bar)"

subsection \<open>Selection of the columns\<close>

text \<open>An index into an array; \<open>None\<close> is \<^verbatim>\<open>undefined\<close>.\<close>

definition elemAt :: "'a list \<Rightarrow> nat \<Rightarrow> 'a option" where
  "elemAt xs i = (if i < length xs then Some (xs ! i) else None)"

definition categoricalColumnsOf :: "(string \<times> coltype) list \<Rightarrow> string list \<Rightarrow> string list" where
  "categoricalColumnsOf columnTypes columns =
     filter (\<lambda>col. map_of columnTypes col = Some TString \<or> map_of columnTypes col = Some TBoolean)
       columns"

definition xColumnOf :: "string list \<Rightarrow> string list \<Rightarrow> string list \<Rightarrow> string option" where
  "xColumnOf columns numericColumns categoricalColumns =
     (if length categoricalColumns > 0 then elemAt categoricalColumns 0
      else if length numericColumns > 0 then elemAt numericColumns 0
      else elemAt columns 0)"

definition yColumnOf :: "string list \<Rightarrow> string list \<Rightarrow> string option \<Rightarrow> string option" where
  "yColumnOf columns numericColumns xColumn =
     (if length numericColumns > 0
      then (if xColumn = elemAt numericColumns 0 \<and> length numericColumns > 1
            then elemAt numericColumns 1 else elemAt numericColumns 0)
      else elemAt columns (if length columns > 1 then 1 else 0))"

text \<open>A column that is \<^verbatim>\<open>undefined\<close> is the property name \<^verbatim>\<open>undefined\<close>.\<close>

definition propertyKey :: "string option \<Rightarrow> string" where
  "propertyKey col = (case col of None \<Rightarrow> ''undefined'' | Some c \<Rightarrow> c)"

subsection \<open>The data of the chart\<close>

text \<open>
  \<^verbatim>\<open>aggregatedData[key] || 0\<close>: zero for a key that is absent and for a value that is
  \<^verbatim>\<open>NaN\<close> or zero.
\<close>

definition orZero :: "rat option option \<Rightarrow> rat" where
  "orZero v = (case v of Some (Some x) \<Rightarrow> x | _ \<Rightarrow> 0)"

definition numAdd :: "rat \<Rightarrow> rat option \<Rightarrow> rat option" where
  "numAdd a b = (case b of None \<Rightarrow> None | Some y \<Rightarrow> Some (a + y))"

text \<open>The body of the loop over the rows of a pie chart.\<close>

definition pieStep ::
  "runtime \<Rightarrow> string \<Rightarrow> string \<Rightarrow> bool \<Rightarrow> (string \<times> rat option) list \<Rightarrow> elem
     \<Rightarrow> thrown + (string \<times> rat option) list" where
  "pieStep rt xColumn yColumn hasNumeric aggregatedData row =
     (case getProp row xColumn of
        Inl e \<Rightarrow> Inl e
      | Inr xv \<Rightarrow>
          (let key = toStrProp rt xv in
           if hasNumeric
           then (case getProp row yColumn of
                   Inl e \<Rightarrow> Inl e
                 | Inr yv \<Rightarrow>
                     Inr (assign aggregatedData key
                            (numAdd (orZero (map_of aggregatedData key)) (toNumberProp rt yv))))
           else Inr (assign aggregatedData key
                       (numAdd (orZero (map_of aggregatedData key)) (Some 1)))))"

fun pieLoop ::
  "runtime \<Rightarrow> string \<Rightarrow> string \<Rightarrow> bool \<Rightarrow> (string \<times> rat option) list \<Rightarrow> elem list
     \<Rightarrow> thrown + (string \<times> rat option) list" where
  "pieLoop rt xColumn yColumn hasNumeric aggregatedData [] = Inr aggregatedData"
| "pieLoop rt xColumn yColumn hasNumeric aggregatedData (row # rows) =
     (case pieStep rt xColumn yColumn hasNumeric aggregatedData row of
        Inl e \<Rightarrow> Inl e
      | Inr agg \<Rightarrow> pieLoop rt xColumn yColumn hasNumeric agg rows)"

text \<open>
  The data of the chart: the slices of a pie chart (labels and values, in the order of
  \<^verbatim>\<open>Object.keys\<close>), the points of a scatter chart with the label of the series, or the
  labels and values of a bar or line chart with the label of the series.
\<close>

datatype chart_data =
    Slices "(string \<times> rat option) list"
  | Points string "(rat option \<times> rat option) list"
  | Series string "cell option list" "cell option list"

definition scatterPoint :: "runtime \<Rightarrow> string \<Rightarrow> string \<Rightarrow> elem \<Rightarrow> thrown + (rat option \<times> rat option)" where
  "scatterPoint rt xColumn yColumn row =
     (case getProp row xColumn of
        Inl e \<Rightarrow> Inl e
      | Inr xv \<Rightarrow>
          (case getProp row yColumn of
             Inl e \<Rightarrow> Inl e
           | Inr yv \<Rightarrow> Inr (toNumberProp rt xv, toNumberProp rt yv)))"

definition chartDataOf ::
  "runtime \<Rightarrow> chart_kind \<Rightarrow> elem list \<Rightarrow> string option \<Rightarrow> string option \<Rightarrow> bool \<Rightarrow> thrown + chart_data" where
  "chartDataOf rt chartType data xColumn yColumn hasNumeric =
     (let x = propertyKey xColumn; y = propertyKey yColumn in
      if chartType = Pie
      then map_sum id Slices (pieLoop rt x y hasNumeric [] data)
      else if chartType = Scatter
      then map_sum id (Points (y @ '' vs '' @ x)) (mapE (scatterPoint rt x y) data)
      else
        (let limitedData = (if length data > 20 then take 20 data else data) in
         case mapE (\<lambda>row. getProp row x) limitedData of
           Inl e \<Rightarrow> Inl e
         | Inr labels \<Rightarrow>
             (case mapE (\<lambda>row. getProp row y) limitedData of
                Inl e \<Rightarrow> Inl e
              | Inr values \<Rightarrow> Inr (Series y labels values))))"

subsection \<open>The handler\<close>

record chart =
  ch_type :: chart_kind
  ch_columns :: "string list"
  ch_xColumn :: "string option"
  ch_yColumn :: "string option"
  ch_data :: chart_data

definition visualise :: "runtime \<Rightarrow> elem \<Rightarrow> elem list \<Rightarrow> string option \<Rightarrow> thrown + chart" where
  "visualise rt first rest type =
     (let data = first # rest in
      case ownProperties first of
        Inl e \<Rightarrow> Inl e
      | Inr props \<Rightarrow>
         (let columns = map fst props;
              columnTypes = map (\<lambda>(col, sampleValue). (col, sampleTypeVis sampleValue)) props;
              numericColumns = columnsOfType columnTypes TNumeric columns;
              categoricalColumns = categoricalColumnsOf columnTypes columns;
              xColumn = xColumnOf columns numericColumns categoricalColumns;
              yColumn = yColumnOf columns numericColumns xColumn;
              chartType = chartTypeOf type
          in case chartDataOf rt chartType data xColumn yColumn (length numericColumns > 0) of
               Inl e \<Rightarrow> Inl e
             | Inr chartData \<Rightarrow>
                 Inr \<lparr>ch_type = chartType, ch_columns = columns, ch_xColumn = xColumn,
                      ch_yColumn = yColumn, ch_data = chartData\<rparr>))"

definition visualizationCatch :: "thrown \<Rightarrow> 'a content outcome" where
  "visualizationCatch e =
     (case e of
        JsError m \<Rightarrow> Returned True (Message (''Error generating visualization: '' @ m))
      | NonError \<Rightarrow> Raised NonError)"

text \<open>The branch \<^verbatim>\<open>request.params.name === "generate_visualization"\<close>.\<close>

definition generate_visualization ::
  "runtime \<Rightarrow> string \<Rightarrow> string option \<Rightarrow> chart content outcome" where
  "generate_visualization rt dataString type =
     (case parseJSON rt dataString of
        Inl m \<Rightarrow> visualizationCatch (JsError m)
      | Inr data \<Rightarrow>
         (case data of
            JArray (first # rest) \<Rightarrow>
              (case visualise rt first rest type of
                 Inl e \<Rightarrow> visualizationCatch e
               | Inr c \<Rightarrow> Returned False (Rendered c))
          | _ \<Rightarrow> Returned True (Message wrongFormat)))"

section \<open>Notions used in the statements and proofs\<close>

definition isMatch :: "string option \<Rightarrow> string \<Rightarrow> bool" where
  "isMatch d m =
     (\<exists>f ws t. ciEq fromKeyword f \<and> ws \<noteq> [] \<and> list_all isSpaceChar ws \<and> ciEq schemaTables t \<and>
        (case d of
           None \<Rightarrow> m = f @ ws @ t
         | Some ds \<Rightarrow> ds \<noteq> [] \<and> list_all isWordChar ds \<and> m = f @ ws @ ds @ CHR ''.'' # t))"

definition fromLetter :: "char \<Rightarrow> bool" where
  "fromLetter c = (\<not> isSpaceChar c \<and> canon c \<noteq> CHR ''S'')"

definition replacementTail :: "string \<Rightarrow> string \<Rightarrow> string" where
  "replacementTail p ds = CHR 0x60 # p @ ''.'' @ ds @ ''.INFORMATION_SCHEMA.TABLES`''"






















section \<open>Properties of the query tool\<close>

lemma canon_word: "isWordChar (canon c) = isWordChar c"
  unfolding isWordChar_def canon_def Let_def by auto

lemma canon_idem: "canon (canon c) = canon c"
  unfolding canon_def Let_def by auto

lemma matchLit_canon:
  "map canon w = map canon lit \<Longrightarrow> matchLit lit (w @ post) = Some post"
proof (induction lit arbitrary: w)
  case Nil
  then show ?case by simp
next
  case (Cons p ps)
  then obtain c cs where "w = c # cs" by (cases w) auto
  with Cons show ?case by simp
qed

lemma forbiddenKeywords_shape:
  "list_all (\<lambda>kw. kw \<noteq> [] \<and> list_all isWordChar kw \<and> map canon kw = kw) forbiddenKeywords"
  by code_simp

lemma standalone_word_forbidden:
  assumes kw: "kw \<in> set forbiddenKeywords"
    and w: "map canon w = kw"
    and pre: "pre = [] \<or> \<not> isWordChar (last pre)"
    and post: "post = [] \<or> \<not> isWordChar (hd post)"
  shows "forbiddenPattern_test (pre @ w @ post)"
proof -
  let ?s = "pre @ w @ post"
  let ?i = "length pre"
  from kw forbiddenKeywords_shape
  have ne: "kw \<noteq> []" and wc: "list_all isWordChar kw" and ck: "map canon kw = kw"
    by (auto simp: list_all_iff)
  have len: "length w = length kw" using w by auto
  have wne: "w \<noteq> []" using len ne by auto
  have ww: "isWordChar c" if "c \<in> set w" for c
  proof -
    have "canon c \<in> set kw" using that w by auto
    then have "isWordChar (canon c)" using wc by (simp add: list_all_iff)
    then show ?thesis by (simp add: canon_word)
  qed
  have b1: "\<not> wordBefore ?s ?i"
    using pre by (cases pre rule: rev_cases) (auto simp: wordBefore_def nth_append)
  have a1: "wordAfter ?s ?i"
    using wne ww [of "hd w"] by (cases w) (auto simp: wordAfter_def nth_append)
  have b2: "wordBefore ?s (?i + length kw)"
    using wne ww [of "last w"] len
    by (cases w rule: rev_cases) (auto simp: wordBefore_def nth_append)
  have a2: "\<not> wordAfter ?s (?i + length kw)"
    using post len by (cases post) (auto simp: wordAfter_def nth_append)
  have m: "matchLit kw (drop ?i ?s) = Some post"
    using matchLit_canon [of w kw post] w ck by simp
  have "forbiddenAt ?s ?i"
    unfolding forbiddenAt_def wordBoundary_def list_ex_iff
    using b1 a1 b2 a2 m kw by auto
  moreover have "?i \<in> set [0 ..< Suc (length ?s)]" by simp
  ultimately show ?thesis
    unfolding forbiddenPattern_test_def list_ex_iff by blast
qed

lemma qualifyTablePath_error:
  "qualifyTablePath s p = Inl e \<Longrightarrow> e = JsError datasetMessage"
proof (induction s p rule: qualifyTablePath.induct)
  case (1 projectId)
  then show ?case by simp
next
  case (2 c cs projectId)
  then show ?case
    by (auto split: option.splits sum.splits prod.splits)
qed


text \<open>
  Claim C1. A statement that holds one of the fourteen keywords as a standalone word, in
  any letter case, is rejected: the handler throws and no request reaches the warehouse.
  A standalone word is an occurrence with no word character (letter, digit or
  underscore) directly before or after it.
\<close>

theorem query_rejects_forbidden_keyword:
  assumes "kw \<in> set forbiddenKeywords"
    and "map canon w = kw"
    and "pre = [] \<or> \<not> isWordChar (last pre)"
    and "post = [] \<or> \<not> isWordChar (hd post)"
  shows "queryTool config bigquery (pre @ w @ post) maxArg
           = (Raised (JsError ''Only READ operations are allowed''), [])"
  using standalone_word_forbidden [OF assms] by (simp add: queryTool_def)


theorem query_rejects_forbidden_keyword_witness:
  "''DROP'' \<in> set forbiddenKeywords \<and> map canon ''Drop'' = ''DROP''
   \<and> (''select 1; '' = [] \<or> \<not> isWordChar (last ''select 1; ''))
   \<and> ('' table t'' = [] \<or> \<not> isWordChar (hd '' table t''))
   \<and> queryTool \<lparr>projectId = ''p'', location = Some ''US''\<rparr>
         (\<lambda>req. Inr [req_query req]) (''select 1; '' @ ''Drop'' @ '' table t'') None
       = (Raised (JsError ''Only READ operations are allowed''), [])"
proof -
  have h1: "''DROP'' \<in> set forbiddenKeywords" by code_simp
  have h2: "map canon ''Drop'' = ''DROP''" by code_simp
  have h3: "''select 1; '' = [] \<or> \<not> isWordChar (last ''select 1; '')" by code_simp
  have h4: "'' table t'' = [] \<or> \<not> isWordChar (hd '' table t'')" by code_simp
  show ?thesis
    by (intro conjI h1 h2 h3 h4 query_rejects_forbidden_keyword [OF h1 h2 h3 h4])
qed


text \<open>
  Claim C2 says that every per-call fault of the query tool comes back as a tool result.
  The keyword guard stands before the \<^verbatim>\<open>try\<close> block, so its error leaves the handler.
\<close>

theorem query_forbidden_keyword_is_raised:
  "fst (queryTool \<lparr>projectId = ''p'', location = Some ''US''\<rparr>
          (\<lambda>req. Inr [req_query req]) ''DROP TABLE t'' None)
     = Raised (JsError ''Only READ operations are allowed'')"
  by code_simp


text \<open>
  Claim C2, amended. For a statement that passes the keyword guard, a missing dataset
  qualifier and a warehouse failure that is an \<^verbatim>\<open>Error\<close> object are returned as a tool
  result flagged as an error, with the text \<^verbatim>\<open>Error executing query: \<close> followed by the
  message; nothing is thrown unless the warehouse throws a value that is not an
  \<^verbatim>\<open>Error\<close>.
\<close>

theorem query_faults_returned:
  assumes "\<not> forbiddenPattern_test sql"
  shows "(upperIncludes informationSchema sql
            \<and> qualifyTablePath sql (projectId config) = Inl e
          \<longrightarrow> queryTool config bigquery sql maxArg
                = (Returned True (Message (''Error executing query: '' @ datasetMessage)), []))
       \<and> (queryTool config bigquery sql maxArg = (out, [req]) \<and> bigquery req = Inl (JsError m)
          \<longrightarrow> out = Returned True (Message (''Error executing query: '' @ m)))
       \<and> ((\<forall>r. bigquery r \<noteq> Inl NonError)
          \<longrightarrow> (\<exists>flag c. fst (queryTool config bigquery sql maxArg) = Returned flag c))"
proof (intro conjI impI)
  assume "upperIncludes informationSchema sql \<and> qualifyTablePath sql (projectId config) = Inl e"
  then show "queryTool config bigquery sql maxArg
                = (Returned True (Message (''Error executing query: '' @ datasetMessage)), [])"
    using assms qualifyTablePath_error [of sql "projectId config" e]
    by (simp add: queryTool_def queryCatch_def)
next
  assume a: "queryTool config bigquery sql maxArg = (out, [req]) \<and> bigquery req = Inl (JsError m)"
  then show "out = Returned True (Message (''Error executing query: '' @ m))"
    using assms
    by (auto simp: queryTool_def queryCatch_def Let_def split: if_splits sum.splits)
next
  assume a: "\<forall>r. bigquery r \<noteq> Inl NonError"
  show "\<exists>flag c. fst (queryTool config bigquery sql maxArg) = Returned flag c"
  proof (cases "if upperIncludes informationSchema sql
                  then qualifyTablePath sql (projectId config) else Inr sql")
    case (Inl e)
    then have "e = JsError datasetMessage"
      using qualifyTablePath_error by (auto split: if_splits)
    then show ?thesis using assms Inl
      by (auto simp: queryTool_def queryCatch_def)
  next
    case (Inr sql')
    then show ?thesis using assms a
      by (auto simp: queryTool_def queryCatch_def Let_def split: sum.splits thrown.splits)
  qed
qed

theorem query_faults_returned_witness:
  "\<not> forbiddenPattern_test ''select * from information_schema.tables''
   \<and> upperIncludes informationSchema ''select * from information_schema.tables''
   \<and> qualifyTablePath ''select * from information_schema.tables'' ''p'' = Inl (JsError datasetMessage)
   \<and> queryTool \<lparr>projectId = ''p'', location = Some ''US''\<rparr>
         (\<lambda>req. Inl (JsError ''quota exceeded'') :: thrown + string list)
         ''select * from information_schema.tables'' None
       = (Returned True (Message (''Error executing query: '' @ datasetMessage)), [])
   \<and> \<not> forbiddenPattern_test ''select 1''
   \<and> fst (queryTool \<lparr>projectId = ''p'', location = Some ''US''\<rparr>
         (\<lambda>req. Inl (JsError ''quota exceeded'') :: thrown + string list) ''select 1'' None)
       = Returned True (Message (''Error executing query: '' @ ''quota exceeded''))"
proof -
  let ?cfg = "\<lparr>projectId = ''p'', location = Some ''US''\<rparr>"
  let ?bq = "\<lambda>req :: query_request. Inl (JsError ''quota exceeded'') :: thrown + string list"
  let ?rq = "\<lparr>req_query = ''select 1'', req_location = Some ''US'',
               req_maximumBytesBilled = ''1000000000''\<rparr>"
  have h1: "\<not> forbiddenPattern_test ''select * from information_schema.tables''" by code_simp
  have h2: "upperIncludes informationSchema ''select * from information_schema.tables''"
    by code_simp
  have h3: "qualifyTablePath ''select * from information_schema.tables'' (projectId ?cfg)
              = Inl (JsError datasetMessage)"
    by code_simp
  have h4: "\<not> forbiddenPattern_test ''select 1''" by code_simp
  have h5: "queryTool ?cfg ?bq ''select 1'' None
              = (fst (queryTool ?cfg ?bq ''select 1'' None), [?rq])"
    by code_simp
  have c1: "queryTool ?cfg ?bq ''select * from information_schema.tables'' None
       = (Returned True (Message (''Error executing query: '' @ datasetMessage)), [])"
    using query_faults_returned [where sql = "''select * from information_schema.tables''"
        and e = "JsError datasetMessage" and config = ?cfg and bigquery = ?bq and maxArg = None,
        OF h1] h2 h3
    by blast
  have c2: "fst (queryTool ?cfg ?bq ''select 1'' None)
       = Returned True (Message (''Error executing query: '' @ ''quota exceeded''))"
    using query_faults_returned [where sql = "''select 1''" and config = ?cfg
        and bigquery = ?bq and maxArg = None
        and out = "fst (queryTool ?cfg ?bq ''select 1'' None)" and req = ?rq
        and m = "''quota exceeded''", OF h4] h5
    by simp
  show ?thesis using h1 h2 h3 h4 c1 c2 by simp
qed

section \<open>Properties of the INFORMATION\_SCHEMA rewrite\<close>

subsection \<open>The pattern matches in one way only\<close>

text \<open>
  The continuation of \<^verbatim>\<open>\s+\<close> fails on an input that starts with white space, and the
  continuation of \<^verbatim>\<open>\w+\<close> on one that starts with a word character, so backtracking
  into a shorter run never succeeds: both repetitions take their longest run.
\<close>

lemma greedyStar_max:
  assumes "\<And>a c t. P c \<Longrightarrow> k a (c # t) = None"
  shows "greedyStar P k acc s = k (acc @ takeWhile P s) (dropWhile P s)"
proof (induction s arbitrary: acc)
  case Nil
  then show ?case by simp
next
  case (Cons c cs)
  show ?case
  proof (cases "P c")
    case True
    then show ?thesis using Cons [of "acc @ [c]"] assms [of c acc cs]
      by (simp split: option.splits)
  next
    case False
    then show ?thesis by simp
  qed
qed

lemma greedyPlus_max:
  assumes "\<And>a c t. P c \<Longrightarrow> k a (c # t) = None"
  shows "greedyPlus P k s =
           (if takeWhile P s = [] then None else k (takeWhile P s) (dropWhile P s))"
proof (cases s)
  case Nil
  then show ?thesis by (simp add: greedyPlus_def)
next
  case (Cons c cs)
  then show ?thesis
    using greedyStar_max [of P k "[c]" cs, OF assms]
    by (simp add: greedyPlus_def)
qed

lemma matchLit_iff:
  "matchLit lit s = Some r \<longleftrightarrow> (\<exists>w. s = w @ r \<and> ciEq lit w)"
proof (induction lit s rule: matchLit.induct)
  case (1 s)
  then show ?case by (auto simp: ciEq_def)
next
  case (2 p ps)
  then show ?case by (auto simp: ciEq_def)
next
  case (3 p ps c cs)
  show ?case
  proof (cases "canon p = canon c")
    case True
    have "(\<exists>w. c # cs = w @ r \<and> ciEq (p # ps) w) \<longleftrightarrow> (\<exists>w'. cs = w' @ r \<and> ciEq ps w')"
    proof
      assume "\<exists>w. c # cs = w @ r \<and> ciEq (p # ps) w"
      then obtain w where w: "c # cs = w @ r" "ciEq (p # ps) w" by blast
      then obtain x w' where "w = x # w'" by (cases w) (auto simp: ciEq_def)
      with w show "\<exists>w'. cs = w' @ r \<and> ciEq ps w'" by (auto simp: ciEq_def)
    next
      assume "\<exists>w'. cs = w' @ r \<and> ciEq ps w'"
      then obtain w' where "cs = w' @ r" "ciEq ps w'" by blast
      then have "c # cs = (c # w') @ r \<and> ciEq (p # ps) (c # w')"
        using True by (simp add: ciEq_def)
      then show "\<exists>w. c # cs = w @ r \<and> ciEq (p # ps) w" by blast
    qed
    then show ?thesis using 3 True by simp
  next
    case False
    have "\<not> (\<exists>w. c # cs = w @ r \<and> ciEq (p # ps) w)"
    proof
      assume "\<exists>w. c # cs = w @ r \<and> ciEq (p # ps) w"
      then obtain w where w: "c # cs = w @ r" "ciEq (p # ps) w" by blast
      then obtain x w' where "w = x # w'" by (cases w) (auto simp: ciEq_def)
      with w False show False by (auto simp: ciEq_def)
    qed
    then show ?thesis using False by simp
  qed
qed

lemma space_not_word: "isSpaceChar c \<Longrightarrow> \<not> isWordChar c"
  unfolding isSpaceChar_def isWordChar_def Let_def by auto

lemma afterFrom_space: "isSpaceChar c \<Longrightarrow> afterFrom (c # t) = None"
proof -
  assume s: "isSpaceChar c"
  then have "canon CHR ''I'' \<noteq> canon c"
    unfolding isSpaceChar_def canon_def Let_def by auto
  then show ?thesis using s space_not_word [OF s]
    by (simp add: afterFrom_def greedyPlus_def schemaTables_def)
qed

lemma datasetThenTables_word: "isWordChar c \<Longrightarrow> datasetThenTables a (c # t) = None"
  unfolding isWordChar_def Let_def datasetThenTables_def by auto

lemma afterFrom_det:
  "afterFrom r =
     (case (if takeWhile isWordChar r = [] then None
            else datasetThenTables (takeWhile isWordChar r) (dropWhile isWordChar r)) of
        Some m \<Rightarrow> Some m
      | None \<Rightarrow> map_option (Pair None) (matchLit schemaTables r))"
  unfolding afterFrom_def
  using greedyPlus_max [of isWordChar datasetThenTables r, OF datasetThenTables_word]
  by simp

lemma unqualifiedPattern_det:
  "unqualifiedPattern s =
     (case matchLit fromKeyword s of
        None \<Rightarrow> None
      | Some r \<Rightarrow> if takeWhile isSpaceChar r = [] then None else afterFrom (dropWhile isSpaceChar r))"
  unfolding unqualifiedPattern_def
  using greedyPlus_max [of isSpaceChar "\<lambda>ws. afterFrom", OF afterFrom_space]
  by (simp split: option.splits)

subsection \<open>Matches are the occurrences of the pattern\<close>

text \<open>
  \<open>isMatch d m\<close>: the text \<open>m\<close> is \<^verbatim>\<open>FROM\<close>, white space, an optional dataset \<open>d\<close> with
  its dot, and \<^verbatim>\<open>INFORMATION_SCHEMA.TABLES\<close>, the keywords in any letter case.
\<close>

lemma match_isMatch:
  assumes "unqualifiedPattern s = Some (d, rest)"
  shows "\<exists>m. s = m @ rest \<and> isMatch d m"
proof -
  obtain r1 where r1: "matchLit fromKeyword s = Some r1"
    and ws: "takeWhile isSpaceChar r1 \<noteq> []"
    and af: "afterFrom (dropWhile isSpaceChar r1) = Some (d, rest)"
    using assms unfolding unqualifiedPattern_det by (auto split: option.splits if_splits)
  obtain f where f: "s = f @ r1" "ciEq fromKeyword f"
    using r1 matchLit_iff by blast
  let ?ws = "takeWhile isSpaceChar r1"
  let ?r2 = "dropWhile isSpaceChar r1"
  have r1s: "r1 = ?ws @ ?r2" by simp
  have wsp: "list_all isSpaceChar ?ws"
    by (simp add: list_all_iff) (meson set_takeWhileD)
  let ?ds = "takeWhile isWordChar ?r2"
  let ?r3 = "dropWhile isWordChar ?r2"
  show ?thesis
  proof (cases "?ds \<noteq> [] \<and> datasetThenTables ?ds ?r3 \<noteq> None")
    case True
    then have dt: "datasetThenTables ?ds ?r3 = Some (d, rest)"
      using af unfolding afterFrom_det by auto
    then obtain r4 where r4: "?r3 = CHR ''.'' # r4" and d: "d = Some ?ds"
      and ml: "matchLit schemaTables r4 = Some rest"
      by (auto simp: datasetThenTables_def split: list.splits if_splits)
    obtain t where t: "r4 = t @ rest" "ciEq schemaTables t"
      using ml matchLit_iff by blast
    have "?r2 = ?ds @ ?r3" by simp
    then have r2: "?r2 = ?ds @ CHR ''.'' # t @ rest" using r4 t by simp
    have dsw: "list_all isWordChar ?ds"
      by (simp add: list_all_iff) (meson set_takeWhileD)
    have "s = (f @ ?ws @ ?ds @ CHR ''.'' # t) @ rest"
      using f(1) r1s r2 by (metis append.assoc append_Cons)
    moreover have "isMatch d (f @ ?ws @ ?ds @ CHR ''.'' # t)"
      unfolding isMatch_def d using f(2) ws wsp t(2) True dsw by auto
    ultimately show ?thesis by blast
  next
    case False
    then have ml: "matchLit schemaTables ?r2 = Some rest" and d: "d = None"
      using af unfolding afterFrom_det by (auto split: if_splits option.splits)
    obtain t where t: "?r2 = t @ rest" "ciEq schemaTables t"
      using ml matchLit_iff by blast
    have "s = (f @ ?ws @ t) @ rest"
      using f(1) r1s t(1) by (metis append.assoc)
    moreover have "isMatch d (f @ ?ws @ t)"
      unfolding isMatch_def d using f(2) ws wsp t(2) by auto
    ultimately show ?thesis by blast
  qed
qed

lemma canon_space: "isSpaceChar (canon c) = isSpaceChar c"
  unfolding isSpaceChar_def canon_def Let_def by auto

lemma canon_dot:
  assumes "canon c = CHR ''.''"
  shows "c = CHR ''.''"
proof (rule ccontr)
  assume "c \<noteq> CHR ''.''"
  then have l: "97 \<le> (of_char c :: nat)"
    and e: "char_of (of_char c - 32 :: nat) = CHR ''.''"
    using assms unfolding canon_def Let_def by (auto split: if_splits)
  have "(of_char (char_of (of_char c - 32 :: nat)) :: nat) = (of_char c - 32) mod 256"
    by simp
  then have "(of_char c - 32 :: nat) mod 256 = 46" using e by simp
  moreover have "(of_char c :: nat) < 256" by simp
  ultimately show False using l by auto
qed

lemma map_canon_split:
  "map canon t = a @ b \<Longrightarrow> \<exists>w1 w2. t = w1 @ w2 \<and> map canon w1 = a \<and> map canon w2 = b"
  by (auto simp: map_eq_append_conv)

lemma word_of_canon:
  assumes "map canon w = a" and "list_all isWordChar a"
  shows "list_all isWordChar w"
proof -
  have "list_all isWordChar (map canon w)" using assms by simp
  then show ?thesis by (simp add: list_all_iff canon_word)
qed

lemma nospace_of_canon:
  assumes "map canon w = a" and "list_all (\<lambda>c. \<not> isSpaceChar c) a"
  shows "list_all (\<lambda>c. \<not> isSpaceChar c) w"
proof -
  have "list_all (\<lambda>c. \<not> isSpaceChar c) (map canon w)" using assms by simp
  then show ?thesis by (simp add: list_all_iff canon_space)
qed


lemma split_at_dot:
  assumes h: "map canon t = a @ CHR ''.'' # b"
    and a: "list_all isWordChar a" "a \<noteq> []"
  shows "\<exists>w1 w2. t = w1 @ CHR ''.'' # w2 \<and> w1 \<noteq> [] \<and> list_all isWordChar w1
           \<and> map canon w2 = b"
proof -
  obtain w1 r where t: "t = w1 @ r" and w1: "map canon w1 = a"
    and r: "map canon r = CHR ''.'' # b"
    using map_canon_split [OF h] by auto
  obtain x w2 where x: "r = x # w2" "canon x = CHR ''.''" "map canon w2 = b"
    using r by (cases r) auto
  have p1: "list_all isWordChar w1" using w1 a(1) by (rule word_of_canon)
  have ne: "w1 \<noteq> []" using w1 a(2) by auto
  have xd: "x = CHR ''.''" using x(2) by (rule canon_dot)
  have "t = w1 @ CHR ''.'' # w2" using t x(1) xd by simp
  then show ?thesis using ne p1 x(3) by blast
qed

lemma tables_no_match:
  assumes "map canon w2 = ''TABLES''"
  shows "matchLit schemaTables (w2 @ rest) = None"
proof -
  obtain y w where w2: "w2 = y # w" and y: "canon y = CHR ''T''"
    using assms by (cases w2) auto
  have "canon CHR ''I'' \<noteq> canon y" using y by (simp add: canon_def)
  then show ?thesis using w2 by (simp add: schemaTables_def)
qed

lemma schemaTables_split:
  assumes "ciEq schemaTables t"
  shows "\<exists>w1 w2. t = w1 @ CHR ''.'' # w2 \<and> w1 \<noteq> [] \<and> list_all isWordChar w1
           \<and> (\<forall>rest. matchLit schemaTables (w2 @ rest) = None)"
proof -
  have c: "map canon schemaTables = ''INFORMATION_SCHEMA'' @ CHR ''.'' # ''TABLES''"
    by code_simp
  have h: "map canon t = ''INFORMATION_SCHEMA'' @ CHR ''.'' # ''TABLES''"
    using assms c by (simp only: ciEq_def)
  have a1: "list_all isWordChar ''INFORMATION_SCHEMA''" by code_simp
  have a2: "''INFORMATION_SCHEMA'' \<noteq> []" by simp
  have "\<exists>w1 w2. t = w1 @ CHR ''.'' # w2 \<and> w1 \<noteq> [] \<and> list_all isWordChar w1
           \<and> map canon w2 = ''TABLES''"
    using h a1 a2 by (rule split_at_dot)
  then obtain w1 w2 where "t = w1 @ CHR ''.'' # w2" "w1 \<noteq> []" "list_all isWordChar w1"
    and w2: "map canon w2 = ''TABLES''"
    by (elim exE conjE)
  moreover have "\<forall>rest. matchLit schemaTables (w2 @ rest) = None"
    using tables_no_match [OF w2] by simp
  ultimately show ?thesis by (intro exI conjI)
qed

lemma takeWhile_all:
  "list_all P xs \<Longrightarrow> \<not> P y \<Longrightarrow> takeWhile P (xs @ y # ys) = xs"
  by (induction xs) auto

lemma dropWhile_all:
  "list_all P xs \<Longrightarrow> \<not> P y \<Longrightarrow> dropWhile P (xs @ y # ys) = y # ys"
  by (induction xs) auto

lemma dot_not_word: "\<not> isWordChar CHR ''.''"
  by code_simp

lemma afterFrom_qualified:
  assumes "ds \<noteq> []" "list_all isWordChar ds" "ciEq schemaTables t"
  shows "afterFrom (ds @ CHR ''.'' # t @ rest) = Some (Some ds, rest)"
proof -
  have m: "matchLit schemaTables (t @ rest) = Some rest"
    using assms(3) matchLit_iff by blast
  have "takeWhile isWordChar (ds @ CHR ''.'' # t @ rest) = ds"
    and "dropWhile isWordChar (ds @ CHR ''.'' # t @ rest) = CHR ''.'' # t @ rest"
    using assms(2) dot_not_word by (simp_all add: takeWhile_all dropWhile_all)
  then show ?thesis
    unfolding afterFrom_det using assms(1) m by (simp add: datasetThenTables_def)
qed

lemma afterFrom_unqualified:
  assumes "ciEq schemaTables t"
  shows "afterFrom (t @ rest) = Some (None, rest)"
proof -
  obtain w1 w2 where t: "t = w1 @ CHR ''.'' # w2" and w1: "w1 \<noteq> []" "list_all isWordChar w1"
    and w2: "\<forall>rest. matchLit schemaTables (w2 @ rest) = None"
    using schemaTables_split [OF assms] by blast
  have m: "matchLit schemaTables (t @ rest) = Some rest"
    using assms matchLit_iff by blast
  have "takeWhile isWordChar (t @ rest) = w1"
    and "dropWhile isWordChar (t @ rest) = CHR ''.'' # w2 @ rest"
    using w1(2) dot_not_word t by (simp_all add: takeWhile_all dropWhile_all)
  then show ?thesis
    unfolding afterFrom_det using w1(1) m w2
    by (simp add: datasetThenTables_def)
qed

lemma schemaTables_head:
  assumes "ciEq schemaTables t"
  shows "\<exists>x t'. t = x # t' \<and> isWordChar x"
proof -
  obtain w1 w2 where t: "t = w1 @ CHR ''.'' # w2" and w1: "w1 \<noteq> []" "list_all isWordChar w1"
    using schemaTables_split [OF assms] by blast
  then show ?thesis by (cases w1) auto
qed

lemma isMatch_match:
  assumes "isMatch d m"
  shows "unqualifiedPattern (m @ rest) = Some (d, rest)"
proof -
  obtain f ws t where f: "ciEq fromKeyword f" and ws: "ws \<noteq> []" "list_all isSpaceChar ws"
    and t: "ciEq schemaTables t"
    and m: "case d of None \<Rightarrow> m = f @ ws @ t
            | Some ds \<Rightarrow> ds \<noteq> [] \<and> list_all isWordChar ds \<and> m = f @ ws @ ds @ CHR ''.'' # t"
    using assms unfolding isMatch_def by blast
  obtain x body where body: "m = f @ ws @ x # body" and x: "isWordChar x"
    and af: "afterFrom (x # body @ rest) = Some (d, rest)"
  proof (cases d)
    case None
    obtain y t' where y: "t = y # t'" "isWordChar y" using schemaTables_head [OF t] by blast
    have "afterFrom (y # t' @ rest) = Some (d, rest)"
      using afterFrom_unqualified [OF t, of rest] y(1) None by simp
    then show ?thesis using that [of y t'] m None y by simp
  next
    case (Some ds)
    then have ds: "ds \<noteq> []" "list_all isWordChar ds" and md: "m = f @ ws @ ds @ CHR ''.'' # t"
      using m by auto
    obtain y ds' where y: "ds = y # ds'" using ds(1) by (cases ds) auto
    have "afterFrom (y # (ds' @ CHR ''.'' # t) @ rest) = Some (d, rest)"
      using afterFrom_qualified [OF ds t, of rest] y Some by simp
    then show ?thesis using that [of y "ds' @ CHR ''.'' # t"] md ds(2) y by simp
  qed
  have ml: "matchLit fromKeyword (m @ rest) = Some (ws @ x # body @ rest)"
    using f body matchLit_iff [of fromKeyword "m @ rest" "ws @ x # body @ rest"] by auto
  have nx: "\<not> isSpaceChar x" using x space_not_word by blast
  have "takeWhile isSpaceChar (ws @ x # body @ rest) = ws"
    and "dropWhile isSpaceChar (ws @ x # body @ rest) = x # body @ rest"
    using ws(2) nx by (simp_all add: takeWhile_all dropWhile_all)
  then show ?thesis
    unfolding unqualifiedPattern_det using ml ws(1) af by simp
qed

lemma match_iff:
  "unqualifiedPattern s = Some (d, rest) \<longleftrightarrow> (\<exists>m. s = m @ rest \<and> isMatch d m)"
  using match_isMatch isMatch_match by blast

subsection \<open>No match overlaps the start of another occurrence\<close>

lemma fromKeyword_shape:
  assumes "ciEq fromKeyword g"
  shows "length g = 4 \<and> list_all fromLetter g"
proof -
  have c: "map canon fromKeyword = fromKeyword" by code_simp
  have l: "length fromKeyword = 4" by code_simp
  have a: "list_all fromLetter fromKeyword" by code_simp
  have m: "map canon g = fromKeyword" using assms c by (simp add: ciEq_def)
  have "length (map canon g) = 4" using m l by simp
  then have "length g = 4" by simp
  moreover have "list_all fromLetter (map canon g)" using m a by simp
  then have "list_all fromLetter g"
    by (simp add: list_all_iff fromLetter_def canon_space canon_idem)
  ultimately show ?thesis by simp
qed

lemma schemaTables_shape:
  assumes "ciEq schemaTables t"
  shows "t \<noteq> [] \<and> list_all (\<lambda>c. \<not> isSpaceChar c) t \<and> canon (last t) = CHR ''S''"
proof -
  have c: "map canon schemaTables = schemaTables" by code_simp
  have a: "list_all (\<lambda>c. \<not> isSpaceChar c) schemaTables" by code_simp
  have l: "last schemaTables = CHR ''S''" by code_simp
  have n: "schemaTables \<noteq> []" by code_simp
  have m: "map canon t = schemaTables" using assms c by (simp add: ciEq_def)
  have t: "t \<noteq> []" using m n by auto
  have "list_all (\<lambda>c. \<not> isSpaceChar c) t" using m a by (rule nospace_of_canon)
  moreover have "canon (last t) = last (map canon t)" using t by (simp add: last_map)
  then have "canon (last t) = CHR ''S''" using m l by simp
  ultimately show ?thesis using t by simp
qed

lemma isMatch_shape:
  assumes "isMatch d m"
  shows "\<exists>k. 4 < k \<and> k < length m \<and> (\<forall>i<length m. isSpaceChar (m ! i) \<longleftrightarrow> 4 \<le> i \<and> i < k)
           \<and> canon (last m) = CHR ''S''"
proof -
  obtain f ws t where f: "ciEq fromKeyword f" and ws: "ws \<noteq> []" "list_all isSpaceChar ws"
    and t: "ciEq schemaTables t"
    and m: "case d of None \<Rightarrow> m = f @ ws @ t
            | Some ds \<Rightarrow> ds \<noteq> [] \<and> list_all isWordChar ds \<and> m = f @ ws @ ds @ CHR ''.'' # t"
    using assms unfolding isMatch_def by blast
  have fs: "length f = 4" "list_all (\<lambda>c. \<not> isSpaceChar c) f"
    using fromKeyword_shape [OF f] by (auto simp: list_all_iff fromLetter_def)
  have ts: "t \<noteq> []" "list_all (\<lambda>c. \<not> isSpaceChar c) t" "canon (last t) = CHR ''S''"
    using schemaTables_shape [OF t] by auto
  obtain body where body: "m = f @ ws @ body" "body \<noteq> []"
    "list_all (\<lambda>c. \<not> isSpaceChar c) body" "last body = last t"
  proof (cases d)
    case None
    then show ?thesis using that [of t] m ts by simp
  next
    case (Some ds)
    have "\<not> isSpaceChar CHR ''.''" by code_simp
    moreover have "list_all (\<lambda>c. \<not> isSpaceChar c) ds"
      using m Some space_not_word by (auto simp: list_all_iff)
    ultimately show ?thesis using that [of "ds @ CHR ''.'' # t"] m Some ts by simp
  qed
  let ?k = "4 + length ws"
  have "4 < ?k" using ws(1) by simp
  moreover have "?k < length m" using body(1,2) fs(1) by simp
  moreover have "\<forall>i<length m. isSpaceChar (m ! i) \<longleftrightarrow> 4 \<le> i \<and> i < ?k"
    using body(1,3) fs ws(2) by (auto simp: nth_append list_all_length)
  moreover have "canon (last m) = CHR ''S''" using body ts(3) by simp
  ultimately show ?thesis by blast
qed

lemma isMatch_solid:
  assumes m: "isMatch d m"
    and z: "u @ g @ sp # Y = m @ rest"
    and g: "ciEq fromKeyword g" and sp: "isSpaceChar sp" and u: "u \<noteq> []"
  shows "length m \<le> length u"
proof (rule ccontr)
  assume "\<not> length m \<le> length u"
  then have lm: "length u < length m" by simp
  obtain k where k: "4 < k" "k < length m"
    and spc: "\<forall>i<length m. isSpaceChar (m ! i) \<longleftrightarrow> 4 \<le> i \<and> i < k"
    and lst: "canon (last m) = CHR ''S''"
    using isMatch_shape [OF m] by blast
  have gs: "length g = 4" "list_all fromLetter g" using fromKeyword_shape [OF g] by auto
  let ?n = "length u"
  have nth: "m ! i = (u @ g @ sp # Y) ! i" if "i < length m" for i
    using z that by (simp add: nth_append)
  have gl: "fromLetter ((u @ g @ sp # Y) ! (?n + j))" if "j < 4" for j
    using gs that by (simp add: nth_append list_all_length)
  show False
  proof (cases "?n + 4 < length m")
    case True
    have "m ! (?n + 4) = sp" using nth [OF True] gs(1) by (simp add: nth_append)
    then have "4 \<le> ?n + 4 \<and> ?n + 4 < k" using spc True sp by metis
    moreover have "0 < ?n" using u by (cases u) simp_all
    ultimately have "4 \<le> ?n + 3 \<and> ?n + 3 < k" by linarith
    moreover have l3: "?n + 3 < length m" using True by simp
    ultimately have "isSpaceChar (m ! (?n + 3))" using spc by blast
    then show False using nth [OF l3] gl [of 3] by (simp add: fromLetter_def)
  next
    case False
    define j where "j = length m - 1 - ?n"
    have j: "j < 4" "length m - 1 = ?n + j" using False lm by (auto simp: j_def)
    have "m \<noteq> []" using lm by auto
    then have "last m = m ! (length m - 1)" by (simp add: last_conv_nth)
    also have "\<dots> = (u @ g @ sp # Y) ! (?n + j)" using nth [of "length m - 1"] lm j(2) by simp
    finally show False using gl [OF j(1)] lst by (simp add: fromLetter_def)
  qed
qed

lemma qualify_at_match:
  assumes "unqualifiedPattern s = Some (d, rest)"
  shows "qualifyTablePath s p =
           (case d of
              None \<Rightarrow> Inl (JsError datasetMessage)
            | Some ds \<Rightarrow>
                (case qualifyTablePath rest p of
                   Inl e \<Rightarrow> Inl e
                 | Inr out \<Rightarrow> Inr (replacement p ds @ out)))"
proof -
  have "s \<noteq> []" using unqualifiedPattern_shorter [OF assms] by auto
  then obtain c cs where "s = c # cs" by (cases s) auto
  then show ?thesis using assms by (simp split: option.splits)
qed

lemma qualify_no_match:
  assumes "unqualifiedPattern (c # cs) = None"
  shows "qualifyTablePath (c # cs) p =
           (case qualifyTablePath cs p of Inl e \<Rightarrow> Inl e | Inr out \<Rightarrow> Inr (c # out))"
  using assms by simp

lemma match_in_prefix:
  assumes C: "unqualifiedPattern (u @ g @ sp # Y) = Some (d, rest)"
    and g: "ciEq fromKeyword g" and sp: "isSpaceChar sp" and u: "u \<noteq> []"
  shows "\<exists>r. rest = r @ g @ sp # Y \<and> unqualifiedPattern u = Some (d, r)"
proof -
  obtain m where m: "u @ g @ sp # Y = m @ rest" "isMatch d m"
    using C match_iff by blast
  have "length m \<le> length u" using isMatch_solid [OF m(2) m(1) g sp u] .
  then obtain r where r: "u = m @ r" "rest = r @ g @ sp # Y"
    using m(1) by (metis append_eq_append_conv_if append_take_drop_id)
  then have "unqualifiedPattern u = Some (d, r)" using m(2) match_iff by blast
  then show ?thesis using r(2) by blast
qed

lemma match_extends:
  assumes "unqualifiedPattern u = Some (d, r)"
  shows "unqualifiedPattern (u @ v) = Some (d, r @ v)"
proof -
  obtain m where "u = m @ r" "isMatch d m" using assms match_iff by blast
  then have "u @ v = m @ (r @ v) \<and> isMatch d m" by simp
  then show ?thesis using match_iff by blast
qed

lemma qualify_append:
  assumes g: "ciEq fromKeyword g" and sp: "isSpaceChar sp"
  shows "qualifyTablePath (pre @ g @ sp # Y) p =
           (case qualifyTablePath pre p of
              Inl e \<Rightarrow> Inl e
            | Inr a \<Rightarrow>
                (case qualifyTablePath (g @ sp # Y) p of
                   Inl e \<Rightarrow> Inl e
                 | Inr b \<Rightarrow> Inr (a @ b)))"
proof (induction pre p rule: qualifyTablePath.induct)
  case (1 projectId)
  then show ?case by (simp split: sum.splits)
next
  case (2 c cs projectId)
  let ?X = "g @ sp # Y"
  show ?case
  proof (cases "unqualifiedPattern (c # cs)")
    case None
    have "unqualifiedPattern ((c # cs) @ ?X) = None"
    proof (rule ccontr)
      assume "unqualifiedPattern ((c # cs) @ ?X) \<noteq> None"
      then obtain d rest where "unqualifiedPattern ((c # cs) @ ?X) = Some (d, rest)" by auto
      then show False using match_in_prefix [OF _ g sp, of "c # cs" Y d rest] None by auto
    qed
    then have "qualifyTablePath ((c # cs) @ ?X) projectId =
        (case qualifyTablePath (cs @ ?X) projectId of Inl e \<Rightarrow> Inl e | Inr out \<Rightarrow> Inr (c # out))"
      using qualify_no_match [of c "cs @ ?X" projectId] by simp
    then show ?thesis using "2.IH"(1) [OF None] None
      by (simp split: sum.splits)
  next
    case (Some a)
    obtain d r where a: "a = (d, r)" by (cases a)
    have C: "unqualifiedPattern ((c # cs) @ ?X) = Some (d, r @ ?X)"
      using match_extends Some a by blast
    show ?thesis
    proof (cases d)
      case None
      then show ?thesis
        using qualify_at_match [OF C, of projectId] Some a by simp
    next
      case (Some ds)
      have "qualifyTablePath (r @ ?X) projectId =
          (case qualifyTablePath r projectId of
             Inl e \<Rightarrow> Inl e
           | Inr a \<Rightarrow> (case qualifyTablePath ?X projectId of Inl e \<Rightarrow> Inl e | Inr b \<Rightarrow> Inr (a @ b)))"
        using "2.IH"(2) \<open>unqualifiedPattern (c # cs) = Some a\<close> a Some by blast
      then show ?thesis
        using qualify_at_match [OF C, of projectId] \<open>unqualifiedPattern (c # cs) = Some a\<close> a Some
        by (simp split: sum.splits)
    qed
  qed
qed

lemma upperIncludes_mid:
  assumes "ciEq lit w"
  shows "upperIncludes lit (A @ w @ B)"
proof -
  have "matchLit lit (drop (length A) (A @ w @ B)) = Some B"
    using assms matchLit_iff [of lit "w @ B" B] by auto
  moreover have "length A \<in> set [0 ..< Suc (length (A @ w @ B))]" by simp
  ultimately show ?thesis unfolding upperIncludes_def list_ex_iff by (metis option.distinct(1))
qed

lemma schemaTables_includes:
  assumes "ciEq schemaTables t"
  shows "upperIncludes informationSchema (A @ t @ B)"
proof -
  have c: "map canon schemaTables = map canon informationSchema @ ''.TABLES''" by code_simp
  have "map canon t = map canon informationSchema @ ''.TABLES''"
    using assms c by (simp only: ciEq_def)
  then obtain w1 r where t: "t = w1 @ r" and w1: "map canon w1 = map canon informationSchema"
    using map_canon_split by blast
  have "ciEq informationSchema w1" using w1 by (simp add: ciEq_def)
  then have "upperIncludes informationSchema (A @ w1 @ (r @ B))" by (rule upperIncludes_mid)
  then show ?thesis using t by simp
qed

lemma isMatch_unqualified:
  assumes "ciEq fromKeyword f" "ws \<noteq> []" "list_all isSpaceChar ws" "ciEq schemaTables t"
  shows "isMatch None (f @ ws @ t)"
  unfolding isMatch_def using assms by auto

lemma isMatch_qualified:
  assumes "ciEq fromKeyword f" "ws \<noteq> []" "list_all isSpaceChar ws" "ciEq schemaTables t"
    "ds \<noteq> []" "list_all isWordChar ds"
  shows "isMatch (Some ds) (f @ ws @ ds @ CHR ''.'' # t)"
  unfolding isMatch_def using assms by auto

lemma qualify_occurrence:
  assumes m: "isMatch d (f @ ws @ body)" and f: "ciEq fromKeyword f"
    and ws: "ws \<noteq> []" "list_all isSpaceChar ws"
  shows "qualifyTablePath (pre @ f @ ws @ body @ post) p =
           (case qualifyTablePath pre p of
              Inl e \<Rightarrow> Inl e
            | Inr a \<Rightarrow>
                (case d of
                   None \<Rightarrow> Inl (JsError datasetMessage)
                 | Some ds \<Rightarrow>
                    (case qualifyTablePath post p of
                       Inl e \<Rightarrow> Inl e
                     | Inr b \<Rightarrow> Inr (a @ replacement p ds @ b))))"
proof -
  obtain sp ws' where w: "ws = sp # ws'" "isSpaceChar sp" using ws by (cases ws) auto
  let ?Y = "ws' @ body @ post"
  have e: "pre @ f @ ws @ body @ post = pre @ f @ sp # ?Y" using w by simp
  have "unqualifiedPattern ((f @ ws @ body) @ post) = Some (d, post)"
    using isMatch_match [OF m] .
  then have u: "unqualifiedPattern (f @ sp # ?Y) = Some (d, post)" using w by simp
  show ?thesis
    unfolding e qualify_append [OF f w(2)] qualify_at_match [OF u]
    by (simp split: sum.splits option.splits)
qed

text \<open>
  Claim C3. Let a statement hold, anywhere, an occurrence of \<^verbatim>\<open>FROM\<close>, white space and
  \<^verbatim>\<open>INFORMATION_SCHEMA.TABLES\<close> (keywords in any letter case). The statement then passes
  the test for \<^verbatim>\<open>INFORMATION_SCHEMA\<close>. With a dataset \<open>ds\<close> and a dot before
  \<^verbatim>\<open>INFORMATION_SCHEMA\<close>, the occurrence is replaced by
  \<^verbatim>\<open>FROM `projectId.ds.INFORMATION_SCHEMA.TABLES`\<close> and the text before and after it is
  rewritten on its own; the query tool, configured with a project id, sends the rewritten
  statement to the warehouse. Without a dataset the rewrite throws the usage error, and
  the query tool returns it as an error result without calling the warehouse. Both
  statements about the query tool are for a statement that passes the keyword guard.
\<close>

theorem information_schema_rewrite:
  assumes "ciEq fromKeyword f" and "ws \<noteq> []" and "list_all isSpaceChar ws"
    and "ciEq schemaTables t"
  shows "(ds \<noteq> [] \<and> list_all isWordChar ds \<longrightarrow>
            upperIncludes informationSchema (pre @ f @ ws @ ds @ CHR ''.'' # t @ post)
          \<and> qualifyTablePath (pre @ f @ ws @ ds @ CHR ''.'' # t @ post) p =
              (case qualifyTablePath pre p of
                 Inl e \<Rightarrow> Inl e
               | Inr a \<Rightarrow>
                   (case qualifyTablePath post p of
                      Inl e \<Rightarrow> Inl e
                    | Inr b \<Rightarrow> Inr (a @ (''FROM `'' @ p @ ''.'' @ ds @ ''.INFORMATION_SCHEMA.TABLES`'') @ b))))
       \<and> upperIncludes informationSchema (pre @ f @ ws @ t @ post)
       \<and> qualifyTablePath (pre @ f @ ws @ t @ post) p = Inl (JsError datasetMessage)
       \<and> (\<not> forbiddenPattern_test (pre @ f @ ws @ t @ post) \<longrightarrow>
            queryTool config bigquery (pre @ f @ ws @ t @ post) maxArg
              = (Returned True (Message (''Error executing query: '' @ datasetMessage)), []))
       \<and> (\<not> forbiddenPattern_test (pre @ f @ ws @ ds @ CHR ''.'' # t @ post)
            \<and> qualifyTablePath (pre @ f @ ws @ ds @ CHR ''.'' # t @ post) (projectId config) = Inr out
          \<longrightarrow> map req_query (snd (queryTool config bigquery (pre @ f @ ws @ ds @ CHR ''.'' # t @ post) maxArg))
                = [out])"
proof -
  have r: "''FROM `'' @ p @ ''.'' @ ds @ ''.INFORMATION_SCHEMA.TABLES`'' = replacement p ds"
    by (simp add: replacement_def)
  have i1: "upperIncludes informationSchema (pre @ f @ ws @ t @ post)"
    using schemaTables_includes [OF assms(4), of "pre @ f @ ws" post] by simp
  have i2: "upperIncludes informationSchema (pre @ f @ ws @ ds @ CHR ''.'' # t @ post)"
    using schemaTables_includes [OF assms(4), of "pre @ f @ ws @ ds @ ''.''" post] by simp
  have q1: "qualifyTablePath (pre @ f @ ws @ t @ post) pid = Inl (JsError datasetMessage)" for pid
    using qualify_occurrence [OF isMatch_unqualified [OF assms] assms(1-3), of pre post pid]
      qualifyTablePath_error [of pre pid]
    by (auto split: sum.splits)
  have h1: "queryTool config bigquery (pre @ f @ ws @ t @ post) maxArg
              = (Returned True (Message (''Error executing query: '' @ datasetMessage)), [])"
    if "\<not> forbiddenPattern_test (pre @ f @ ws @ t @ post)"
    using that i1 q1 [of "projectId config"] by (simp add: queryTool_def queryCatch_def)
  have h2: "map req_query (snd (queryTool config bigquery (pre @ f @ ws @ ds @ CHR ''.'' # t @ post) maxArg))
                = [out]"
    if "\<not> forbiddenPattern_test (pre @ f @ ws @ ds @ CHR ''.'' # t @ post)"
      and "qualifyTablePath (pre @ f @ ws @ ds @ CHR ''.'' # t @ post) (projectId config) = Inr out"
    using that i2 by (simp add: queryTool_def Let_def split: sum.splits)
  have q2: "qualifyTablePath (pre @ f @ ws @ ds @ CHR ''.'' # t @ post) p =
              (case qualifyTablePath pre p of
                 Inl e \<Rightarrow> Inl e
               | Inr a \<Rightarrow>
                   (case qualifyTablePath post p of
                      Inl e \<Rightarrow> Inl e
                    | Inr b \<Rightarrow> Inr (a @ replacement p ds @ b)))"
    if ds: "ds \<noteq> []" "list_all isWordChar ds"
    using qualify_occurrence [OF isMatch_qualified [OF assms ds] assms(1-3), of pre post p]
    by (simp split: sum.splits)
  show ?thesis unfolding r using i1 i2 q1 h1 h2 q2 by blast
qed

theorem information_schema_rewrite_witness:
  "ciEq fromKeyword ''from'' \<and> ''  '' \<noteq> [] \<and> list_all isSpaceChar ''  ''
   \<and> ciEq schemaTables ''information_schema.tables''
   \<and> ''ds1'' \<noteq> [] \<and> list_all isWordChar ''ds1''
   \<and> \<not> forbiddenPattern_test (''select * '' @ ''from'' @ ''  '' @ ''information_schema.tables'' @ '' limit 1'')
   \<and> \<not> forbiddenPattern_test (''select * '' @ ''from'' @ ''  '' @ ''ds1'' @ CHR ''.'' # ''information_schema.tables'' @ '' limit 1'')
   \<and> qualifyTablePath (''select * '' @ ''from'' @ ''  '' @ ''ds1'' @ CHR ''.'' # ''information_schema.tables'' @ '' limit 1'') ''proj''
       = Inr (''select * FROM `proj.ds1.INFORMATION_SCHEMA.TABLES` limit 1'')
   \<and> map req_query (snd (queryTool \<lparr>projectId = ''proj'', location = Some ''US''\<rparr> (\<lambda>req. Inr [req_query req])
         (''select * '' @ ''from'' @ ''  '' @ ''ds1'' @ CHR ''.'' # ''information_schema.tables'' @ '' limit 1'') None))
       = [''select * FROM `proj.ds1.INFORMATION_SCHEMA.TABLES` limit 1'']
   \<and> qualifyTablePath (''select * '' @ ''from'' @ ''  '' @ ''information_schema.tables'' @ '' limit 1'') ''proj''
       = Inl (JsError datasetMessage)
   \<and> queryTool \<lparr>projectId = ''proj'', location = Some ''US''\<rparr> (\<lambda>req. Inr [req_query req])
         (''select * '' @ ''from'' @ ''  '' @ ''information_schema.tables'' @ '' limit 1'') None
       = (Returned True (Message (''Error executing query: '' @ datasetMessage)), [])"
proof -
  let ?cfg = "\<lparr>projectId = ''proj'', location = Some ''US''\<rparr>"
  have h1: "ciEq fromKeyword ''from''" by code_simp
  have h2: "''  '' \<noteq> []" by simp
  have h3: "list_all isSpaceChar ''  ''" by code_simp
  have h4: "ciEq schemaTables ''information_schema.tables''" by code_simp
  have h5: "''ds1'' \<noteq> [] \<and> list_all isWordChar ''ds1''" by code_simp
  have h6: "\<not> forbiddenPattern_test
      (''select * '' @ ''from'' @ ''  '' @ ''information_schema.tables'' @ '' limit 1'')"
    by code_simp
  have h7: "\<not> forbiddenPattern_test
      (''select * '' @ ''from'' @ ''  '' @ ''ds1'' @ CHR ''.'' # ''information_schema.tables'' @ '' limit 1'')"
    by code_simp
  have e1: "qualifyTablePath ''select * '' ''proj'' = Inr ''select * ''" by code_simp
  have e2: "qualifyTablePath '' limit 1'' ''proj'' = Inr '' limit 1''" by code_simp
  have pc: "projectId ?cfg = ''proj''" by simp
  have w: "''select * '' @ (''FROM `'' @ ''proj'' @ ''.'' @ ''ds1'' @ ''.INFORMATION_SCHEMA.TABLES`'')
             @ '' limit 1'' = ''select * FROM `proj.ds1.INFORMATION_SCHEMA.TABLES` limit 1''"
    by simp
  note t = information_schema_rewrite [OF h1 h2 h3 h4, where ds = "''ds1''"
      and pre = "''select * ''" and post = "'' limit 1''" and p = "''proj''"
      and config = ?cfg and bigquery = "\<lambda>req. Inr [req_query req]" and maxArg = None
      and out = "''select * FROM `proj.ds1.INFORMATION_SCHEMA.TABLES` limit 1''"]
  have c1: "qualifyTablePath (''select * '' @ ''from'' @ ''  '' @ ''ds1'' @ CHR ''.'' # ''information_schema.tables'' @ '' limit 1'') ''proj''
       = Inr (''select * FROM `proj.ds1.INFORMATION_SCHEMA.TABLES` limit 1'')"
    using t [THEN conjunct1, THEN mp, OF h5, THEN conjunct2]
    unfolding e1 e2 sum.case w .
  have c1': "qualifyTablePath (''select * '' @ ''from'' @ ''  '' @ ''ds1'' @ CHR ''.'' # ''information_schema.tables'' @ '' limit 1'') (projectId ?cfg)
       = Inr (''select * FROM `proj.ds1.INFORMATION_SCHEMA.TABLES` limit 1'')"
    unfolding pc by (rule c1)
  have c2: "qualifyTablePath (''select * '' @ ''from'' @ ''  '' @ ''information_schema.tables'' @ '' limit 1'') ''proj''
       = Inl (JsError datasetMessage)"
    using t by (rule conjunct2 [THEN conjunct2, THEN conjunct1])
  have c3: "queryTool ?cfg (\<lambda>req. Inr [req_query req])
         (''select * '' @ ''from'' @ ''  '' @ ''information_schema.tables'' @ '' limit 1'') None
       = (Returned True (Message (''Error executing query: '' @ datasetMessage)), [])"
    using t [THEN conjunct2, THEN conjunct2, THEN conjunct2, THEN conjunct1, THEN mp, OF h6] .
  have c4: "map req_query (snd (queryTool ?cfg (\<lambda>req. Inr [req_query req])
         (''select * '' @ ''from'' @ ''  '' @ ''ds1'' @ CHR ''.'' # ''information_schema.tables'' @ '' limit 1'') None))
       = [''select * FROM `proj.ds1.INFORMATION_SCHEMA.TABLES` limit 1'']"
    by (rule t [THEN conjunct2, THEN conjunct2, THEN conjunct2, THEN conjunct2, THEN mp,
          OF conjI [OF h7 c1']])
  show ?thesis
    by (intro conjI h1 h2 h3 h4 h5 [THEN conjunct1] h5 [THEN conjunct2] h6 h7 c1 c4 c2 c3)
qed

subsection \<open>Rewriting twice\<close>

lemma projectIdChar_no_space: "projectIdChar c \<Longrightarrow> \<not> isSpaceChar c"
  unfolding projectIdChar_def isSpaceChar_def Let_def by auto

lemma isMatch_head:
  assumes "isMatch d m"
  shows "4 < length m \<and> (\<forall>i<4. isWordChar (m ! i)) \<and> isSpaceChar (m ! 4)"
proof -
  obtain f r where m: "m = f @ r" and f: "ciEq fromKeyword f"
    using assms unfolding isMatch_def by (auto split: option.splits)
  have c: "map canon fromKeyword = fromKeyword" by code_simp
  have a: "list_all isWordChar fromKeyword" by code_simp
  have "map canon f = fromKeyword" using f c by (simp add: ciEq_def)
  then have w: "list_all isWordChar f" using a by (rule word_of_canon)
  have l: "length f = 4" using fromKeyword_shape [OF f] by simp
  obtain k where k: "4 < k" "k < length m"
    and spc: "\<forall>i<length m. isSpaceChar (m ! i) \<longleftrightarrow> 4 \<le> i \<and> i < k"
    using isMatch_shape [OF assms] by blast
  have "\<forall>i<4. isWordChar (m ! i)"
    using w l m by (simp add: nth_append list_all_length)
  moreover have "isSpaceChar (m ! 4)" using k spc by simp
  ultimately show ?thesis using k by simp
qed

lemma backtick_not_word: "\<not> isWordChar (CHR 0x60)"
  by code_simp

lemma no_match_in_tail:
  assumes v: "v \<noteq> []" "list_all (\<lambda>c. \<not> isSpaceChar c) v" "last v = CHR 0x60"
  shows "unqualifiedPattern (v @ y) = None"
proof (rule ccontr)
  assume "unqualifiedPattern (v @ y) \<noteq> None"
  then obtain d rest where "unqualifiedPattern (v @ y) = Some (d, rest)" by auto
  then obtain m where m: "v @ y = m @ rest" "isMatch d m" using match_iff by blast
  have h: "4 < length m" "\<forall>i<4. isWordChar (m ! i)" "isSpaceChar (m ! 4)"
    using isMatch_head [OF m(2)] by auto
  have nth: "m ! i = (v @ y) ! i" if "i < length m" for i
    using m(1) that by (simp add: nth_append)
  show False
  proof (cases "4 < length v")
    case True
    have "m ! 4 = v ! 4" using nth [of 4] h(1) True by (simp add: nth_append)
    then show False using h(3) v(2) True by (simp add: list_all_length)
  next
    case False
    have lv: "length v - 1 < 4" "length v - 1 < length v" using False v(1) by auto
    have "last v = v ! (length v - 1)" using v(1) by (simp add: last_conv_nth)
    also have "\<dots> = m ! (length v - 1)" using nth [of "length v - 1"] h(1) lv
      by (simp add: nth_append)
    finally show False using h(2) lv(1) v(3) backtick_not_word by auto
  qed
qed

lemma qualify_tail:
  assumes "v \<noteq> []" "list_all (\<lambda>c. \<not> isSpaceChar c) v" "last v = CHR 0x60"
  shows "qualifyTablePath (v @ y) p =
           (case qualifyTablePath y p of Inl e \<Rightarrow> Inl e | Inr b \<Rightarrow> Inr (v @ b))"
  using assms
proof (induction v)
  case Nil
  then show ?case by simp
next
  case (Cons c v)
  have n: "unqualifiedPattern ((c # v) @ y) = None"
    using no_match_in_tail [OF Cons.prems] .
  show ?case
  proof (cases "v = []")
    case True
    then show ?thesis using n by (simp split: sum.splits)
  next
    case False
    then have "qualifyTablePath (v @ y) p =
           (case qualifyTablePath y p of Inl e \<Rightarrow> Inl e | Inr b \<Rightarrow> Inr (v @ b))"
      using Cons by simp
    then show ?thesis using n by (simp split: sum.splits)
  qed
qed

lemma isMatch_body:
  assumes "isMatch d m"
  shows "\<exists>k. 4 < k \<and> k < length m \<and> (\<forall>i. 4 \<le> i \<and> i < k \<longrightarrow> isSpaceChar (m ! i))
           \<and> isWordChar (m ! k)"
proof -
  obtain f ws t where f: "ciEq fromKeyword f" and ws: "ws \<noteq> []" "list_all isSpaceChar ws"
    and t: "ciEq schemaTables t"
    and m: "case d of None \<Rightarrow> m = f @ ws @ t
            | Some ds \<Rightarrow> ds \<noteq> [] \<and> list_all isWordChar ds \<and> m = f @ ws @ ds @ CHR ''.'' # t"
    using assms unfolding isMatch_def by blast
  have l: "length f = 4" using fromKeyword_shape [OF f] by simp
  obtain x body where b: "m = f @ ws @ x # body" "isWordChar x"
  proof (cases d)
    case None
    obtain y t' where "t = y # t'" "isWordChar y" using schemaTables_head [OF t] by blast
    then show ?thesis using that [of y t'] m None by simp
  next
    case (Some ds)
    then obtain y ds' where "ds = y # ds'" "isWordChar y" using m by (cases ds) auto
    then show ?thesis using that [of y "ds' @ CHR ''.'' # t"] m Some by simp
  qed
  let ?k = "4 + length ws"
  have "4 < ?k" using ws(1) by simp
  moreover have "?k < length m" using b(1) l by simp
  moreover have "\<forall>i. 4 \<le> i \<and> i < ?k \<longrightarrow> isSpaceChar (m ! i)"
    using b(1) l ws(2) by (auto simp: nth_append list_all_length)
  moreover have "isWordChar (m ! ?k)" using b l by (simp add: nth_append)
  ultimately show ?thesis by blast
qed

lemma no_match_without_F:
  assumes "canon x \<noteq> CHR ''F''"
  shows "unqualifiedPattern (x # rest) = None"
proof -
  have "canon CHR ''F'' = CHR ''F''" by code_simp
  then show ?thesis using assms by (simp add: unqualifiedPattern_def fromKeyword_def)
qed

lemma replacement_split: "replacement p ds = fromKeyword @ CHR '' '' # replacementTail p ds"
  by (simp add: replacement_def replacementTail_def fromKeyword_def)

lemma replacementTail_shape:
  assumes "list_all (\<lambda>c. \<not> isSpaceChar c) p" "list_all isWordChar ds"
  shows "replacementTail p ds \<noteq> [] \<and> list_all (\<lambda>c. \<not> isSpaceChar c) (replacementTail p ds)
           \<and> last (replacementTail p ds) = CHR 0x60
           \<and> hd (replacementTail p ds) = CHR 0x60"
proof -
  have a: "list_all (\<lambda>c. \<not> isSpaceChar c) ''.INFORMATION_SCHEMA.TABLES`''" by code_simp
  have b: "\<not> isSpaceChar (CHR 0x60)" "\<not> isSpaceChar CHR ''.''" by code_simp+
  have c: "last ''.INFORMATION_SCHEMA.TABLES`'' = CHR 0x60" by code_simp
  have d: "list_all (\<lambda>c. \<not> isSpaceChar c) ds"
    using assms(2) space_not_word by (auto simp: list_all_iff)
  define lit where "lit = ''.INFORMATION_SCHEMA.TABLES`''"
  have e: "replacementTail p ds = CHR 0x60 # p @ CHR ''.'' # ds @ lit"
    by (simp add: replacementTail_def lit_def)
  have ln: "lit \<noteq> []" by (simp add: lit_def)
  show ?thesis
    unfolding e using a b c d assms(1) ln unfolding lit_def [symmetric] by simp
qed

lemma no_match_at_replacement:
  assumes "list_all (\<lambda>c. \<not> isSpaceChar c) p" "list_all isWordChar ds"
  shows "unqualifiedPattern (replacement p ds @ y) = None"
proof (rule ccontr)
  assume "unqualifiedPattern (replacement p ds @ y) \<noteq> None"
  then obtain d rest where "unqualifiedPattern (replacement p ds @ y) = Some (d, rest)" by auto
  then obtain m where m: "replacement p ds @ y = m @ rest" "isMatch d m"
    using match_iff by blast
  obtain k where k: "4 < k" "k < length m"
    "\<forall>i. 4 \<le> i \<and> i < k \<longrightarrow> isSpaceChar (m ! i)" "isWordChar (m ! k)"
    using isMatch_body [OF m(2)] by blast
  obtain tl where tl: "replacementTail p ds = CHR 0x60 # tl"
    by (simp add: replacementTail_def)
  have r: "replacement p ds @ y = fromKeyword @ CHR '' '' # CHR 0x60 # tl @ y"
    using replacement_split tl by simp
  have l4: "length fromKeyword = 4" by code_simp
  have nth: "m ! i = (replacement p ds @ y) ! i" if "i < length m" for i
    using m(1) that by (simp add: nth_append)
  have "m ! 5 = CHR 0x60" using nth [of 5] k(1,2) r l4 by (simp add: nth_append)
  moreover have "\<not> isSpaceChar (CHR 0x60)" by code_simp
  ultimately have "\<not> 5 < k" using k(3) [rule_format, of 5] by auto
  then have "k = 5" using k(1) by simp
  then show False using \<open>m ! 5 = CHR 0x60\<close> k(4) backtick_not_word by simp
qed

lemma qualify_replacement:
  assumes "list_all (\<lambda>c. \<not> isSpaceChar c) p" "list_all isWordChar ds"
  shows "qualifyTablePath (replacement p ds @ y) q =
           (case qualifyTablePath y q of Inl e \<Rightarrow> Inl e | Inr b \<Rightarrow> Inr (replacement p ds @ b))"
proof -
  let ?tl = "replacementTail p ds"
  have sh: "?tl \<noteq> []" "list_all (\<lambda>c. \<not> isSpaceChar c) ?tl" "last ?tl = CHR 0x60"
    using replacementTail_shape [OF assms] by auto
  have t: "qualifyTablePath (?tl @ y) q =
           (case qualifyTablePath y q of Inl e \<Rightarrow> Inl e | Inr b \<Rightarrow> Inr (?tl @ b))"
    using qualify_tail [OF sh] .
  have r: "replacement p ds @ z =
           CHR ''F'' # CHR ''R'' # CHR ''O'' # CHR ''M'' # CHR '' '' # ?tl @ z" for z
    by (simp add: replacement_split fromKeyword_def)
  have n0: "unqualifiedPattern (CHR ''F'' # CHR ''R'' # CHR ''O'' # CHR ''M'' # CHR '' '' # ?tl @ y) = None"
    using no_match_at_replacement [OF assms, of y] r [of y] by simp
  have c: "canon CHR ''R'' \<noteq> CHR ''F''" "canon CHR ''O'' \<noteq> CHR ''F''"
    "canon CHR ''M'' \<noteq> CHR ''F''" "canon CHR '' '' \<noteq> CHR ''F''"
    by code_simp+
  have n1: "unqualifiedPattern (CHR ''R'' # z) = None"
    and n2: "unqualifiedPattern (CHR ''O'' # z) = None"
    and n3: "unqualifiedPattern (CHR ''M'' # z) = None"
    and n4: "unqualifiedPattern (CHR '' '' # z) = None" for z
    using c by (simp_all add: no_match_without_F)
  show ?thesis
    unfolding r
    by (simp only: qualify_no_match [OF n0] qualify_no_match [OF n1] qualify_no_match [OF n2]
          qualify_no_match [OF n3] qualify_no_match [OF n4] t)
       (simp split: sum.splits)
qed

lemma rewritten_prefix:
  assumes "qualifyTablePath s p = Inr out" and "isMatch d m"
    and "pre \<noteq> []" and "pre @ out = m @ rest'"
  shows "\<exists>rest. pre @ s = m @ rest"
  using assms
proof (induction s p arbitrary: out pre rest' rule: qualifyTablePath.induct)
  case (1 projectId)
  then show ?case by auto
next
  case (2 c cs projectId)
  show ?case
  proof (cases "unqualifiedPattern (c # cs)")
    case None
    then obtain out' where o: "qualifyTablePath cs projectId = Inr out'" "out = c # out'"
      using "2.prems"(1) by (auto split: sum.splits)
    have "(pre @ [c]) @ out' = m @ rest'" using "2.prems"(4) o(2) by simp
    then have "\<exists>rest. (pre @ [c]) @ cs = m @ rest"
      using "2.IH"(1) [OF None o(1) "2.prems"(2)] by blast
    then show ?thesis by simp
  next
    case (Some a)
    obtain d' r where a: "a = (d', r)" by (cases a)
    have q: "qualifyTablePath (c # cs) projectId =
           (case d' of
              None \<Rightarrow> Inl (JsError datasetMessage)
            | Some ds \<Rightarrow>
                (case qualifyTablePath r projectId of
                   Inl e \<Rightarrow> Inl e
                 | Inr out \<Rightarrow> Inr (replacement projectId ds @ out)))"
      using qualify_at_match Some a by blast
    then obtain ds out2 where ds: "d' = Some ds" and o: "out = replacement projectId ds @ out2"
      using "2.prems"(1) Some a by (auto split: option.splits sum.splits)
    have g: "ciEq fromKeyword fromKeyword" by (simp add: ciEq_def)
    have sp: "isSpaceChar CHR '' ''" by code_simp
    have "pre @ fromKeyword @ CHR '' '' # (replacementTail projectId ds @ out2) = m @ rest'"
      using "2.prems"(4) o replacement_split by simp
    then have "length m \<le> length pre"
      using isMatch_solid [OF "2.prems"(2) _ g sp "2.prems"(3)] by blast
    then obtain r' where "pre = m @ r'"
      using "2.prems"(4) by (metis append_eq_append_conv_if append_take_drop_id)
    then have "pre @ c # cs = m @ (r' @ c # cs)" by simp
    then show ?thesis by blast
  qed
qed

lemma qualify_idempotent:
  assumes "list_all (\<lambda>c. \<not> isSpaceChar c) p" and "qualifyTablePath s p = Inr out"
  shows "qualifyTablePath out p = Inr out"
  using assms
proof (induction s p arbitrary: out rule: qualifyTablePath.induct)
  case (1 projectId)
  then show ?case by simp
next
  case (2 c cs projectId)
  show ?case
  proof (cases "unqualifiedPattern (c # cs)")
    case None
    then obtain out' where o: "qualifyTablePath cs projectId = Inr out'" "out = c # out'"
      using "2.prems"(2) by (auto split: sum.splits)
    have ih: "qualifyTablePath out' projectId = Inr out'"
      using "2.IH"(1) [OF None "2.prems"(1) o(1)] .
    have "unqualifiedPattern (c # out') = None"
    proof (rule ccontr)
      assume "unqualifiedPattern (c # out') \<noteq> None"
      then obtain d rest where "unqualifiedPattern (c # out') = Some (d, rest)" by auto
      then obtain m where m: "c # out' = m @ rest" "isMatch d m" using match_iff by blast
      have "[c] @ out' = m @ rest" using m(1) by simp
      then obtain rest2 where "[c] @ cs = m @ rest2"
        using rewritten_prefix [OF o(1) m(2), of "[c]" rest] by blast
      then have "unqualifiedPattern (c # cs) = Some (d, rest2)"
        using m(2) match_iff by auto
      then show False using None by simp
    qed
    then show ?thesis using ih o(2) by simp
  next
    case (Some a)
    obtain d' r where a: "a = (d', r)" by (cases a)
    have q: "qualifyTablePath (c # cs) projectId =
           (case d' of
              None \<Rightarrow> Inl (JsError datasetMessage)
            | Some ds \<Rightarrow>
                (case qualifyTablePath r projectId of
                   Inl e \<Rightarrow> Inl e
                 | Inr out \<Rightarrow> Inr (replacement projectId ds @ out)))"
      using qualify_at_match Some a by blast
    then obtain ds out2 where ds: "d' = Some ds" and o2: "qualifyTablePath r projectId = Inr out2"
      and o: "out = replacement projectId ds @ out2"
      using "2.prems"(2) Some a by (auto split: option.splits sum.splits)
    have ih: "qualifyTablePath out2 projectId = Inr out2"
      using "2.IH"(2) Some a ds "2.prems"(1) o2 by blast
    obtain m where "isMatch (Some ds) m" using Some a ds match_iff by blast
    then have w: "list_all isWordChar ds" unfolding isMatch_def by auto
    show ?thesis
      unfolding o qualify_replacement [OF "2.prems"(1) w] using ih by simp
  qed
qed

text \<open>
  Claim C4. The rewrite is idempotent: when it succeeds on a statement, with a project id
  that the configuration check accepts, it returns its own output unchanged.
\<close>

theorem rewrite_idempotent:
  assumes "validProjectId pid" and "qualifyTablePath sql pid = Inr out"
  shows "qualifyTablePath out pid = Inr out"
proof -
  have "list_all (\<lambda>c. \<not> isSpaceChar c) pid"
    using assms(1) projectIdChar_no_space by (auto simp: validProjectId_def list_all_iff)
  then show ?thesis using assms(2) by (rule qualify_idempotent)
qed

theorem rewrite_idempotent_witness:
  "validProjectId ''my-proj-1''
   \<and> qualifyTablePath ''select * from ds1.information_schema.tables t'' ''my-proj-1''
       = Inr ''select * FROM `my-proj-1.ds1.INFORMATION_SCHEMA.TABLES` t''
   \<and> qualifyTablePath ''select * FROM `my-proj-1.ds1.INFORMATION_SCHEMA.TABLES` t'' ''my-proj-1''
       = Inr ''select * FROM `my-proj-1.ds1.INFORMATION_SCHEMA.TABLES` t''"
proof -
  have h1: "validProjectId ''my-proj-1''" by code_simp
  have h2: "qualifyTablePath ''select * from ds1.information_schema.tables t'' ''my-proj-1''
       = Inr ''select * FROM `my-proj-1.ds1.INFORMATION_SCHEMA.TABLES` t''" by code_simp
  show ?thesis by (intro conjI h1 h2 rewrite_idempotent [OF h1 h2])
qed

section \<open>Properties of analyze\_results\<close>


lemma mapE_error:
  assumes "mapE f xs = Inl e"
  shows "\<exists>x \<in> set xs. f x = Inl e"
  using assms by (induction xs) (auto split: sum.splits)




subsection \<open>Assignments to a record\<close>











lemma assign_length: "length (assign obj k v) = (if k \<in> fst ` set obj then length obj else Suc (length obj))"
proof -
  have "length (insertIndex i k v obj) = Suc (length obj)" for i
    by (induction obj) (auto split: option.splits)
  then show ?thesis by (auto simp: assign_def split: option.splits)
qed

subsection \<open>Every exception of the analysis is an Error object\<close>

lemma getProp_error: "getProp e col = Inl x \<Longrightarrow> x \<noteq> NonError"
  by (auto simp: getProp_def split: elem.splits cell.splits)

lemma ownProperties_error: "ownProperties e = Inl x \<Longrightarrow> x \<noteq> NonError"
  by (auto simp: ownProperties_def split: elem.splits cell.splits)

lemma cells_error: "mapE (\<lambda>row. getProp row col) data = Inl x \<Longrightarrow> x \<noteq> NonError"
  using mapE_error getProp_error by fastforce

lemma columnValues_error: "columnValues rt data col = Inl x \<Longrightarrow> x \<noteq> NonError"
  using cells_error by (fastforce simp: columnValues_def split: sum.splits)

lemma statisticsLoop_error: "statisticsLoop rt data cols stats = Inl x \<Longrightarrow> x \<noteq> NonError"
proof (induction cols arbitrary: stats)
  case Nil
  then show ?case by simp
next
  case (Cons col cols)
  then show ?case
    using columnValues_error [of rt data col x]
    by (auto split: sum.splits list.splits)
qed

lemma categoricalLoop_error: "categoricalLoop rt data cols acc = Inl x \<Longrightarrow> x \<noteq> NonError"
proof (induction cols arbitrary: acc)
  case Nil
  then show ?case by simp
next
  case (Cons col cols)
  then show ?case
    using cells_error [of col data x]
    by (auto split: sum.splits)
qed

lemma insightLine_error: "insightLine rt data stats line col = Inl x \<Longrightarrow> x \<noteq> NonError"
  using columnValues_error [of rt data col x]
  by (auto simp: insightLine_def split: option.splits sum.splits)

lemma insightLines_error: "insightLines rt data stats line cols = Inl x \<Longrightarrow> x \<noteq> NonError"
proof -
  assume a: "insightLines rt data stats line cols = Inl x"
  then have "mapE (insightLine rt data stats line) cols = Inl x"
    by (auto simp: insightLines_def split: sum.splits)
  then obtain col where "insightLine rt data stats line col = Inl x"
    using mapE_error by fastforce
  then show ?thesis by (rule insightLine_error)
qed

lemma focusedInsights_error:
  "focusedInsights rt data cols stats focus = Inl x \<Longrightarrow> x \<noteq> NonError"
proof -
  assume a: "focusedInsights rt data cols stats focus = Inl x"
  then obtain line where "insightLines rt data stats line cols = Inl x"
    by (auto simp: focusedInsights_def map_sum_def split: option.splits if_splits sum.splits)
  then show ?thesis by (rule insightLines_error)
qed

lemma analyse_error: "analyse rt first rest focus = Inl x \<Longrightarrow> x \<noteq> NonError"
  unfolding analyse_def Let_def
  using ownProperties_error [of first x]
    statisticsLoop_error [of rt "first # rest" _ "[]" x]
    categoricalLoop_error [of rt "first # rest" _ "[]" x]
    focusedInsights_error [of rt "first # rest" _ _ focus x]
  by (auto simp: statistics_def categoricalAnalysis_def split: sum.splits option.splits)

text \<open>
  Claim C7 names three inputs (text that is not JSON, a value that is not an array, an
  empty array) and with them every parsed value that is not a non-empty array of records.
  An array of numbers is such a value, and it is analysed as a table without columns.
\<close>

theorem analyze_results_accepts_array_of_numbers:
  "analyze_results
     \<lparr>parseJSON = (\<lambda>s. Inr (JArray [Prim (CNum 1)])), stringToNumber = (\<lambda>s. None),
      numberToString = (\<lambda>x. ''1'')\<rparr> ''[1]'' None
   = Returned False
       (Rendered \<lparr>an_rowCount = 1, an_columns = [], an_columnTypes = [], an_numericColumns = [],
                  an_statistics = [], an_categoricalAnalysis = [], an_focusedInsights = None\<rparr>)"
  by code_simp

text \<open>
  Claim C7, amended. When the text is not JSON, or its value is not an array, or it is the
  empty array, the tool returns a result flagged as an error: the message of the parser
  after \<^verbatim>\<open>Error analyzing data: \<close>, or the fixed message about the expected format. And
  for every input the tool returns a result: no exception leaves the handler.
\<close>

theorem analyze_results_rejects_non_array:
  "(parseJSON rt dataString = Inl m \<longrightarrow>
      analyze_results rt dataString focus = Returned True (Message (''Error analyzing data: '' @ m)))
   \<and> (parseJSON rt dataString = Inr (JArray []) \<or> parseJSON rt dataString = Inr (JObject r)
        \<or> parseJSON rt dataString = Inr (JScalar c) \<longrightarrow>
      analyze_results rt dataString focus = Returned True (Message wrongFormat))
   \<and> (\<exists>flag content. analyze_results rt dataString focus = Returned flag content)"
proof (intro conjI impI)
  assume "parseJSON rt dataString = Inl m"
  then show "analyze_results rt dataString focus
               = Returned True (Message (''Error analyzing data: '' @ m))"
    by (simp add: analyze_results_def analyzeCatch_def)
next
  assume "parseJSON rt dataString = Inr (JArray []) \<or> parseJSON rt dataString = Inr (JObject r)
        \<or> parseJSON rt dataString = Inr (JScalar c)"
  then show "analyze_results rt dataString focus = Returned True (Message wrongFormat)"
    by (auto simp: analyze_results_def)
next
  show "\<exists>flag content. analyze_results rt dataString focus = Returned flag content"
  proof (cases "parseJSON rt dataString")
    case (Inl m)
    then show ?thesis by (auto simp: analyze_results_def analyzeCatch_def)
  next
    case (Inr data)
    show ?thesis
    proof (cases "\<exists>first rest. data = JArray (first # rest)")
      case True
      then obtain first rest where d: "data = JArray (first # rest)" by blast
      show ?thesis
      proof (cases "analyse rt first rest focus")
        case (Inl e)
        then obtain msg where "e = JsError msg" using analyse_error [OF Inl] by (cases e) auto
        then show ?thesis using Inr d Inl by (auto simp: analyze_results_def analyzeCatch_def)
      next
        case (Inr a)
        then show ?thesis using \<open>parseJSON rt dataString = Inr data\<close> d
          by (auto simp: analyze_results_def)
      qed
    next
      case False
      then show ?thesis using Inr
        by (auto simp: analyze_results_def split: json.splits list.splits)
    qed
  qed
qed

theorem analyze_results_rejects_non_array_witness:
  "parseJSON \<lparr>parseJSON = (\<lambda>s. if s = ''[]'' then Inr (JArray []) else Inl ''Unexpected token''),
              stringToNumber = (\<lambda>s. None), numberToString = (\<lambda>x. ''1'')\<rparr> ''{'' = Inl ''Unexpected token''
   \<and> analyze_results
        \<lparr>parseJSON = (\<lambda>s. if s = ''[]'' then Inr (JArray []) else Inl ''Unexpected token''),
         stringToNumber = (\<lambda>s. None), numberToString = (\<lambda>x. ''1'')\<rparr> ''{'' None
       = (Returned True (Message (''Error analyzing data: '' @ ''Unexpected token'')) :: analysis content outcome)
   \<and> parseJSON \<lparr>parseJSON = (\<lambda>s. if s = ''[]'' then Inr (JArray []) else Inl ''Unexpected token''),
              stringToNumber = (\<lambda>s. None), numberToString = (\<lambda>x. ''1'')\<rparr> ''[]'' = Inr (JArray [])
   \<and> analyze_results
        \<lparr>parseJSON = (\<lambda>s. if s = ''[]'' then Inr (JArray []) else Inl ''Unexpected token''),
         stringToNumber = (\<lambda>s. None), numberToString = (\<lambda>x. ''1'')\<rparr> ''[]'' None
       = Returned True (Message wrongFormat)"
proof -
  let ?rt = "\<lparr>parseJSON = (\<lambda>s. if s = ''[]'' then Inr (JArray []) else Inl ''Unexpected token''),
              stringToNumber = (\<lambda>s. None), numberToString = (\<lambda>x. ''1'')\<rparr>"
  have h1: "parseJSON ?rt ''{'' = Inl ''Unexpected token''" by simp
  have h2: "parseJSON ?rt ''[]'' = Inr (JArray [])" by simp
  note t1 = analyze_results_rejects_non_array [where rt = ?rt and dataString = "''{''"
      and m = "''Unexpected token''" and focus = None, THEN conjunct1, THEN mp, OF h1]
  note t2 = analyze_results_rejects_non_array [where rt = ?rt and dataString = "''[]''"
      and focus = None, THEN conjunct2, THEN conjunct1, THEN mp, OF disjI1, OF h2]
  show ?thesis by (intro conjI h1 h2 t1 t2)
qed

subsection \<open>Statistics of a numeric column\<close>















subsection \<open>Columns without a value\<close>








subsection \<open>Frequencies of a string column\<close>















section \<open>Properties of generate\_visualization\<close>











end
